(* ===== verification/Prelude.thy ===== *)
theory Prelude
  imports Complex_Main
begin

section \<open>Prelude: shared types, powers with integer exponents, digits\<close>

text \<open>
  Shared material of the development: the collection \<open>js_eval\<close> of equations that
  evaluate the JavaScript model on concrete values, integer powers of a rational base
  (binary64 values and decimal literals are \<open>m \<cdot> 2\<^sup>k\<close> and \<open>m \<cdot> 10\<^sup>k\<close>
  with \<open>k\<close> of either sign), decimal digits of characters, and the facts about them
  that the component theories share.
\<close>

named_theorems js_eval "equations that evaluate the JavaScript model on concrete values"

text \<open>
  A JavaScript string is a sequence of UTF-16 code units. The model represents it as an
  Isabelle \<open>string\<close> whose characters are the code units \<open>U+0000\<close> to
  \<open>U+00FF\<close> (\<open>of_char c\<close> is the code unit).
\<close>

type_synonym js_string = string

subsection \<open>Powers with an integer exponent\<close>

definition ipow :: "nat \<Rightarrow> int \<Rightarrow> rat" where
  "ipow b k = (if 0 \<le> k then of_nat b ^ nat k else 1 / of_nat b ^ nat (- k))"

text \<open>Sequencing of operations that may throw: the first error is the result.\<close>

definition bind_res :: "'e + 'a \<Rightarrow> ('a \<Rightarrow> 'e + 'b) \<Rightarrow> 'e + 'b" where
  "bind_res r f = (case r of Inl e \<Rightarrow> Inl e | Inr a \<Rightarrow> f a)"

text \<open>Decimal digits.\<close>

definition is_digit :: "char \<Rightarrow> bool" where
  "is_digit c \<longleftrightarrow> (48::nat) \<le> of_char c \<and> of_char c \<le> (57::nat)"

definition digit_value :: "char \<Rightarrow> nat" where
  "digit_value c = of_char c - 48"

definition digit_char :: "nat \<Rightarrow> char" where
  "digit_char d = char_of (48 + d)"

text \<open>The value of a digit sequence, most significant digit first, in base \<open>b\<close>.\<close>

definition digits_value :: "nat \<Rightarrow> (char \<Rightarrow> nat) \<Rightarrow> char list \<Rightarrow> nat" where
  "digits_value b dv ds = foldl (\<lambda>acc c. b * acc + dv c) 0 ds"

abbreviation dec_value :: "char list \<Rightarrow> nat" where
  "dec_value \<equiv> digits_value 10 digit_value"

text \<open>The decimal digits of a natural number, without leading zeros (\<open>''0''\<close> for 0).\<close>

fun nat_digits :: "nat \<Rightarrow> char list" where
  "nat_digits n = (if n < 10 then [digit_char n] else nat_digits (n div 10) @ [digit_char (n mod 10)])"

declare nat_digits.simps [simp del]

subsection \<open>Facts about powers\<close>

lemma ipow_powi: "ipow b k = of_nat b powi k"
  by (simp add: ipow_def power_int_def field_simps)

lemma ipow_pos [simp]: "0 < b \<Longrightarrow> 0 < ipow b k"
  by (simp add: ipow_def)

lemma ipow_nonzero [simp]: "0 < b \<Longrightarrow> ipow b k \<noteq> 0"
  using ipow_pos by (metis less_irrefl)

lemma ipow_nat [simp]: "ipow b (int n) = of_nat b ^ n"
  by (simp add: ipow_def)

lemma ipow_add: "0 < b \<Longrightarrow> ipow b (k + l) = ipow b k * ipow b l"
  by (simp add: ipow_powi power_int_add)

lemma ipow_diff: "0 < b \<Longrightarrow> ipow b (k - l) = ipow b k / ipow b l"
  by (simp add: ipow_powi power_int_diff)

lemma ipow_minus: "0 < b \<Longrightarrow> ipow b (- k) = 1 / ipow b k"
  by (simp add: ipow_powi power_int_minus_divide)

lemma ipow_1 [simp]: "ipow b 1 = of_nat b"
  by (simp add: ipow_def)

lemma ipow_0 [simp]: "ipow b 0 = 1"
  by (simp add: ipow_def)

lemma ipow_strict_mono: "1 < b \<Longrightarrow> k < l \<Longrightarrow> ipow b k < ipow b l"
  by (simp add: ipow_powi power_int_strict_increasing)

lemma ipow_mono: "1 < b \<Longrightarrow> k \<le> l \<Longrightarrow> ipow b k \<le> ipow b l"
  by (simp add: ipow_powi power_int_increasing)

lemma ipow_less_iff: "1 < b \<Longrightarrow> ipow b k < ipow b l \<longleftrightarrow> k < l"
  using ipow_strict_mono ipow_mono by (metis linorder_not_le)

lemma ipow_le_iff: "1 < b \<Longrightarrow> ipow b k \<le> ipow b l \<longleftrightarrow> k \<le> l"
  using ipow_strict_mono ipow_mono by (metis linorder_not_le)

lemma ipow_int_of_nonneg: "0 \<le> k \<Longrightarrow> ipow b k = of_int (int b ^ nat k)"
  by (simp add: ipow_def)

subsection \<open>Results as sums\<close>

text \<open>An operation that may throw returns \<open>Inl\<close> of the error or \<open>Inr\<close> of the value;
  \<open>map_sum id f\<close> applies \<open>f\<close> to a value and passes an error through.\<close>

lemma bind_res_Inl [simp]: "bind_res (Inl e) f = Inl e"
  by (simp add: bind_res_def)

lemma bind_res_Inr [simp]: "bind_res (Inr a) f = f a"
  by (simp add: bind_res_def)

lemma bind_res_eq_Inr_iff: "bind_res r f = Inr b \<longleftrightarrow> (\<exists>a. r = Inr a \<and> f a = Inr b)"
  by (cases r) auto

lemma bind_res_eq_Inl_iff:
  "bind_res r f = Inl e \<longleftrightarrow> r = Inl e \<or> (\<exists>a. r = Inr a \<and> f a = Inl e)"
  by (cases r) auto

lemma map_sum_eq_Inl_iff [simp]: "map_sum f g x = Inl a \<longleftrightarrow> (\<exists>a'. x = Inl a' \<and> a = f a')"
  by (cases x) auto

lemma map_sum_eq_Inr_iff [simp]: "map_sum f g x = Inr b \<longleftrightarrow> (\<exists>b'. x = Inr b' \<and> b = g b')"
  by (cases x) auto

subsection \<open>Facts about digits\<close>

lemma digits_value_Nil [simp]: "digits_value b dv [] = 0"
  by (simp add: digits_value_def)

lemma digits_value_snoc [simp]:
  "digits_value b dv (ds @ [c]) = b * digits_value b dv ds + dv c"
  by (simp add: digits_value_def)

lemma digits_value_single [simp]: "digits_value b dv [c] = dv c"
  by (simp add: digits_value_def)

lemma is_digit_digit_char [simp]: "d < 10 \<Longrightarrow> is_digit (digit_char d)"
  by (simp add: is_digit_def digit_char_def)

lemma digit_value_digit_char [simp]: "d < 10 \<Longrightarrow> digit_value (digit_char d) = d"
  by (simp add: digit_value_def digit_char_def)

lemma digit_value_less: "is_digit c \<Longrightarrow> digit_value c < 10"
  unfolding is_digit_def digit_value_def by linarith

lemma nat_digits_ne [simp]: "nat_digits n \<noteq> []"
  by (subst nat_digits.simps) simp

lemma nat_digits_all_digits: "list_all is_digit (nat_digits n)"
proof (induction n rule: nat_digits.induct)
  case (1 n)
  then show ?case by (subst nat_digits.simps) simp
qed

lemma dec_value_nat_digits [simp]: "dec_value (nat_digits n) = n"
proof (induction n rule: nat_digits.induct)
  case (1 n)
  then show ?case by (subst nat_digits.simps) simp
qed

end
