(* ===== verification/JsNumber.thy ===== *)
theory JsNumber
  imports Prelude
begin

section \<open>JavaScript Numbers: binary64 values and rounding\<close>

text \<open>
  The Number type of ECMAScript (ECMA-262, 6.1.6.1) is IEEE 754 binary64. The model keeps
  what the program observes of a Number: \<open>NaN\<close>, the two infinities, and a finite
  value as the exact rational it denotes. The sign of zero is not kept: \<open>+0\<close> and
  \<open>-0\<close> are both \<open>Fin 0\<close>; they behave alike under \<open>||\<close>, under comparison and
  under \<open>TimeClip\<close>, which is all the program does with a Number.

  \<open>round_binary64\<close> is "the Number value for \<open>x\<close>" of ECMA-262 (6.1.6.1): round to
  nearest, ties to even, with 53 significant bits, exponents from \<open>-1074\<close> (subnormals)
  to \<open>971\<close>, and overflow to an infinity at \<open>2\<^sup>1\<^sup>0\<^sup>2\<^sup>4 - 2\<^sup>9\<^sup>7\<^sup>0\<close>.
  StringToNumber applies it to the mathematical value of a numeric literal.
\<close>

datatype jsnum = NaN | PosInf | NegInf | Fin rat

fun jsnum_neg :: "jsnum \<Rightarrow> jsnum" where
  "jsnum_neg NaN = NaN"
| "jsnum_neg PosInf = NegInf"
| "jsnum_neg NegInf = PosInf"
| "jsnum_neg (Fin x) = Fin (- x)"

subsection \<open>Integer logarithm\<close>

text \<open>\<open>nat_log b n\<close> is the largest \<open>k\<close> with \<open>b\<^sup>k \<le> n\<close> (for \<open>n \<ge> 1\<close>).\<close>

fun nat_log :: "nat \<Rightarrow> nat \<Rightarrow> nat" where
  "nat_log b n = (if b \<le> 1 \<or> n < b then 0 else Suc (nat_log b (n div b)))"

declare nat_log.simps [simp del]

text \<open>\<open>floor_log b q\<close> is \<open>\<lfloor>log\<^sub>b q\<rfloor>\<close> for a positive rational \<open>q\<close>.\<close>

definition floor_log :: "nat \<Rightarrow> rat \<Rightarrow> int" where
  "floor_log b q =
     (if 1 \<le> q then int (nat_log b (nat \<lfloor>q\<rfloor>))
      else (let k = nat_log b (nat \<lfloor>1 / q\<rfloor>)
            in if of_nat b ^ k = 1 / q then - int k else - int k - 1))"

subsection \<open>Rounding\<close>

text \<open>Round a nonnegative rational to the nearest integer, ties to even.\<close>

definition round_half_even :: "rat \<Rightarrow> int" where
  "round_half_even s =
     (let f = \<lfloor>s\<rfloor>; r = s - of_int f
      in if r < 1 / 2 then f else if 1 / 2 < r then f + 1 else if even f then f else f + 1)"

text \<open>
  A positive \<open>q\<close> with binary exponent \<open>e = \<lfloor>log\<^sub>2 q\<rfloor>\<close> lies on the grid of
  spacing \<open>2\<^sup>E\<^sup>-\<^sup>5\<^sup>2\<close>, \<open>E = max e (-1022)\<close> (the subnormal range shares the spacing of
  the least normal binade). It is rounded to that grid; a result at or above
  \<open>2\<^sup>1\<^sup>0\<^sup>2\<^sup>4\<close> is an overflow.
\<close>

definition binade :: "rat \<Rightarrow> int" where
  "binade q = max (floor_log 2 q) (-1022)"

definition round_pos :: "rat \<Rightarrow> jsnum" where
  "round_pos q =
     (let u = ipow 2 (binade q - 52);
          v = of_int (round_half_even (q / u)) * u
      in if 2 ^ 1024 \<le> v then PosInf else Fin v)"

definition round_binary64 :: "rat \<Rightarrow> jsnum" where
  "round_binary64 q =
     (if q = 0 then Fin 0 else if 0 < q then round_pos q else jsnum_neg (round_pos (- q)))"

text \<open>A rational is a finite binary64 value when it is \<open>m \<cdot> 2\<^sup>k\<close> with \<open>|m| < 2\<^sup>5\<^sup>3\<close>
  and \<open>-1074 \<le> k \<le> 971\<close>.\<close>

definition is_binary64 :: "rat \<Rightarrow> bool" where
  "is_binary64 q \<longleftrightarrow>
     q = 0 \<or>
     (let E = binade \<bar>q\<bar>; s = \<bar>q\<bar> / ipow 2 (E - 52)
      in E \<le> 1023 \<and> of_int \<lfloor>s\<rfloor> = s)"

subsection \<open>Logarithm bounds\<close>

lemma nat_log_bounds:
  assumes "1 < b" "0 < n"
  shows "b ^ nat_log b n \<le> n \<and> n < b ^ Suc (nat_log b n)"
  using assms
proof (induction b n rule: nat_log.induct)
  case (1 b n)
  show ?case
  proof (cases "n < b")
    case True
    with "1.prems" show ?thesis by (simp add: nat_log.simps [of b n])
  next
    case False
    with "1.prems" have d: "0 < n div b" by (simp add: div_greater_zero_iff)
    with "1.IH" False "1.prems" have ih: "b ^ nat_log b (n div b) \<le> n div b \<and>
        n div b < b ^ Suc (nat_log b (n div b))" by simp
    have lo: "b * b ^ nat_log b (n div b) \<le> n"
      using ih "1.prems" by (simp add: less_eq_div_iff_mult_less_eq mult.commute)
    have hi: "n < b * b ^ Suc (nat_log b (n div b))"
      using ih "1.prems" by (simp add: div_less_iff_less_mult mult.commute)
    from False "1.prems" lo hi show ?thesis by (simp add: nat_log.simps [of b n])
  qed
qed


lemma nat_log_rat_bounds:
  assumes b: "1 < b" and y: "1 \<le> (y::rat)"
  shows "of_nat b ^ nat_log b (nat \<lfloor>y\<rfloor>) \<le> y \<and> y < of_nat b ^ Suc (nat_log b (nat \<lfloor>y\<rfloor>))"
proof -
  let ?n = "nat \<lfloor>y\<rfloor>" and ?k = "nat_log b (nat \<lfloor>y\<rfloor>)"
  have "1 \<le> \<lfloor>y\<rfloor>" using y by (simp add: le_floor_iff)
  then have n0: "0 < ?n" by simp
  have nb: "b ^ ?k \<le> ?n \<and> ?n < b ^ Suc ?k" using nat_log_bounds [OF b n0] .
  have fl: "0 \<le> \<lfloor>y\<rfloor>" using y by simp
  have ny: "of_nat ?n \<le> y" using fl by (simp add: of_nat_nat)
  have yn: "y < of_nat ?n + 1" using fl by (simp add: of_nat_nat floor_correct [of y, THEN conjunct2, simplified])
  have "(of_nat (b ^ ?k) :: rat) \<le> of_nat ?n" using nb of_nat_le_iff by blast
  then have "(of_nat b ^ ?k :: rat) \<le> of_nat ?n" by simp
  then have lo: "of_nat b ^ ?k \<le> y" using ny by (rule order_trans)
  have "?n + 1 \<le> b ^ Suc ?k" using nb by simp
  then have "(of_nat (?n + 1) :: rat) \<le> of_nat (b ^ Suc ?k)" using of_nat_le_iff by blast
  then have "(of_nat ?n + 1 :: rat) \<le> of_nat (b ^ Suc ?k)" by simp
  then have hi: "y < of_nat b ^ Suc ?k" using yn by simp
  from lo hi show ?thesis ..
qed

lemma floor_log_bounds:
  assumes b: "1 < b" and q: "0 < q"
  shows "ipow b (floor_log b q) \<le> q \<and> q < ipow b (floor_log b q + 1)"
proof (cases "1 \<le> q")
  case True
  from nat_log_rat_bounds [OF b True] True show ?thesis
    by (simp add: floor_log_def ipow_def nat_add_distrib)
next
  case False
  let ?y = "1 / q"
  let ?k = "nat_log b (nat \<lfloor>?y\<rfloor>)"
  have y1: "1 \<le> ?y" using False q by simp
  have kb: "of_nat b ^ ?k \<le> ?y \<and> ?y < of_nat b ^ Suc ?k" by (rule nat_log_rat_bounds [OF b y1])
  have bpos: "(0::rat) < of_nat b ^ ?k" using b by simp
  show ?thesis
  proof (cases "of_nat b ^ ?k = ?y")
    case True
    then have "q = 1 / of_nat b ^ ?k" using q bpos by (auto simp: field_simps)
    moreover have "ipow b (1 - int ?k) = of_nat b / of_nat b ^ ?k"
      using b by (simp add: ipow_diff)
    ultimately show ?thesis using False True b bpos
      by (simp add: floor_log_def ipow_minus divide_strict_right_mono)
  next
    case ne: False
    have lt: "of_nat b ^ ?k < ?y" using kb ne by simp
    have bpos1: "(0::rat) < of_nat b ^ Suc ?k" using b by simp
    have "1 < q * of_nat b ^ Suc ?k"
      using kb q by (simp add: field_simps)
    then have "1 / of_nat b ^ Suc ?k < q"
      using bpos1 by (simp add: divide_less_eq mult.commute)
    moreover have "q < 1 / of_nat b ^ ?k"
      using lt q bpos by (simp add: field_simps)
    moreover have "ipow b (- int ?k - 1) = 1 / of_nat b ^ Suc ?k"
      using b by (simp add: ipow_minus [symmetric] ipow_def nat_add_distrib)
    moreover have "ipow b (- int ?k - 1 + 1) = 1 / of_nat b ^ ?k"
      using b by (simp add: ipow_def)
    ultimately show ?thesis using False ne by (simp add: floor_log_def Let_def)
  qed
qed

lemma floor_log_unique:
  assumes b: "1 < b" and lo: "ipow b e \<le> q" and hi: "q < ipow b (e + 1)"
  shows "floor_log b q = e"
proof -
  have q: "0 < q" using ipow_pos [of b e] b lo by linarith
  have f: "ipow b (floor_log b q) \<le> q \<and> q < ipow b (floor_log b q + 1)"
    by (rule floor_log_bounds [OF b q])
  have "ipow b e < ipow b (floor_log b q + 1)" using lo f by linarith
  then have 1: "e < floor_log b q + 1" using b by (simp add: ipow_less_iff)
  have "ipow b (floor_log b q) < ipow b (e + 1)" using hi f by linarith
  then have 2: "floor_log b q < e + 1" using b by (simp add: ipow_less_iff)
  from 1 2 show ?thesis by linarith
qed

lemma round_half_even_int [simp]: "round_half_even (of_int i) = i"
  by (simp add: round_half_even_def)

lemma binade_le_exact:
  assumes m: "0 < m" "m < 2 ^ 53" and k: "-1074 \<le> k"
  shows "binade (of_int m * ipow 2 k) - 52 \<le> k"
proof -
  let ?q = "of_int m * ipow 2 k"
  have q: "0 < ?q" using m by simp
  have "(of_int m :: rat) < ipow 2 53" using m by (simp add: ipow_def)
  then have "?q < ipow 2 53 * ipow 2 k" by simp
  then have hi: "?q < ipow 2 (53 + k)" by (simp add: ipow_add)
  have "ipow 2 (floor_log 2 ?q) \<le> ?q" using floor_log_bounds [of 2 ?q] q by simp
  then have "ipow 2 (floor_log 2 ?q) < ipow 2 (53 + k)" using hi by linarith
  then have "floor_log 2 ?q < 53 + k" by (simp add: ipow_less_iff)
  then show ?thesis using k by (simp add: binade_def)
qed

lemma ipow_2_1024: "ipow 2 1024 = 2 ^ 1024"
  by (simp add: ipow_def)

lemma round_pos_exact:
  assumes m: "0 < m" "m < 2 ^ 53" and k: "-1074 \<le> k" "k \<le> 971"
  shows "round_pos (of_int m * ipow 2 k) = Fin (of_int m * ipow 2 k)"
proof -
  let ?q = "of_int m * ipow 2 k"
  obtain e where e: "e = binade ?q - 52" by simp
  define d where "d = k - e"
  have d0: "0 \<le> d" using binade_le_exact [OF m k(1)] by (simp add: d_def e)
  have kd: "ipow 2 k = ipow 2 e * ipow 2 d" by (simp add: d_def flip: ipow_add)
  have s: "?q / ipow 2 e = of_int (m * 2 ^ nat d)"
  proof -
    have "?q / ipow 2 e = of_int m * ipow 2 d" by (simp add: kd)
    also have "\<dots> = of_int (m * 2 ^ nat d)" using d0 by (simp add: ipow_int_of_nonneg)
    finally show ?thesis .
  qed
  have v: "of_int (m * 2 ^ nat d) * ipow 2 e = ?q"
    using s by (simp add: field_simps) (metis)
  have "(of_int m :: rat) < ipow 2 53" using m by (simp add: ipow_def)
  then have "?q < ipow 2 53 * ipow 2 k" by simp
  also have "\<dots> = ipow 2 (53 + k)" by (simp add: ipow_add)
  also have "\<dots> \<le> ipow 2 1024" using k by (simp add: ipow_le_iff)
  also have "\<dots> = 2 ^ 1024" by (rule ipow_2_1024)
  finally have "?q < 2 ^ 1024" .
  moreover have "of_int (round_half_even (?q / ipow 2 e)) * ipow 2 e = ?q"
    by (simp only: s round_half_even_int v)
  ultimately show ?thesis unfolding round_pos_def Let_def e [symmetric] by simp
qed

theorem round_binary64_exact:
  assumes m: "\<bar>m\<bar> < 2 ^ 53" and k: "-1074 \<le> k" "k \<le> 971"
  shows "round_binary64 (of_int m * ipow 2 k) = Fin (of_int m * ipow 2 k)"
proof (cases "0 < m")
  case True
  with m k show ?thesis by (simp add: round_binary64_def round_pos_exact)
next
  case False
  show ?thesis
  proof (cases "m = 0")
    case True
    then show ?thesis by (simp add: round_binary64_def)
  next
    case nz: False
    with False have neg: "0 < - m" by simp
    have "round_pos (of_int (- m) * ipow 2 k) = Fin (of_int (- m) * ipow 2 k)"
      using neg m k by (intro round_pos_exact) simp_all
    moreover have "of_int m * ipow 2 k < 0"
      using False nz by (simp add: mult_less_0_iff)
    ultimately show ?thesis by (simp add: round_binary64_def)
  qed
qed

corollary round_binary64_int:
  assumes "\<bar>n\<bar> \<le> 2 ^ 53"
  shows "round_binary64 (of_int n) = Fin (of_int n)"
proof (cases "\<bar>n\<bar> < 2 ^ 53")
  case True
  then show ?thesis using round_binary64_exact [of n 0] by simp
next
  case False
  then have "n = 2 ^ 52 * 2 \<or> n = - (2 ^ 52) * 2" using assms by auto
  then show ?thesis
  proof
    assume n: "n = 2 ^ 52 * 2"
    show ?thesis using round_binary64_exact [of "2 ^ 52" 1] by (simp add: n)
  next
    assume n: "n = - (2 ^ 52) * 2"
    show ?thesis using round_binary64_exact [of "- (2 ^ 52)" 1] by (simp add: n)
  qed
qed

lemma round_binary64_of_nat:
  assumes "n \<le> 2 ^ 53"
  shows "round_binary64 (of_nat n) = Fin (of_nat n)"
  using round_binary64_int [of "int n"] assms by simp

lemma round_binary64_numeral [js_eval]:
  "numeral n \<le> (2::nat) ^ 53 \<Longrightarrow> round_binary64 (numeral n) = Fin (numeral n)"
  using round_binary64_of_nat [of "numeral n"] by simp

end
