(* ===== verification/StringToNumber.thy ===== *)
theory StringToNumber
  imports JsNumber
begin

section \<open>StringToNumber: \<open>Number(s)\<close> on a string\<close>

text \<open>
  ECMA-262 7.1.4.1.1 (StringToNumber) and the grammar StringNumericLiteral: surrounding
  white space is ignored; an empty or all-white-space string is \<open>+0\<close>; otherwise the
  rest must be a StrDecimalLiteral (optional sign, \<open>Infinity\<close> or decimal digits with an
  optional fraction and exponent, no numeric separators) or a NonDecimalIntegerLiteral
  (\<open>0b\<close>, \<open>0o\<close>, \<open>0x\<close> in either case, no sign), and anything else is \<open>NaN\<close>. The
  mathematical value of the literal is rounded with \<open>round_binary64\<close>.
  White space here is StrWhiteSpaceChar restricted to the code units the model has:
  TAB, LF, VT, FF, CR, SPACE and NO-BREAK SPACE (\<open>U+00A0\<close>).
\<close>

definition js_whitespace :: "char \<Rightarrow> bool" where
  "js_whitespace c \<longleftrightarrow> of_char c \<in> {9, 10, 11, 12, 13, 32, 160 :: nat}"

definition js_trim :: "string \<Rightarrow> string" where
  "js_trim s = rev (dropWhile js_whitespace (rev (dropWhile js_whitespace s)))"

definition hex_digit_value :: "char \<Rightarrow> nat option" where
  "hex_digit_value c =
     (let n = of_char c :: nat
      in if 48 \<le> n \<and> n \<le> 57 then Some (n - 48)
         else if 97 \<le> n \<and> n \<le> 102 then Some (n - 87)
         else if 65 \<le> n \<and> n \<le> 70 then Some (n - 55)
         else None)"

definition radix_digit :: "nat \<Rightarrow> char \<Rightarrow> bool" where
  "radix_digit r c \<longleftrightarrow> (case hex_digit_value c of Some d \<Rightarrow> d < r | None \<Rightarrow> False)"

definition radix_value :: "char \<Rightarrow> nat" where
  "radix_value c = (case hex_digit_value c of Some d \<Rightarrow> d | None \<Rightarrow> 0)"

definition parse_radix_digits :: "nat \<Rightarrow> string \<Rightarrow> nat option" where
  "parse_radix_digits r ds =
     (if ds \<noteq> [] \<and> list_all (radix_digit r) ds then Some (digits_value r radix_value ds)
      else None)"

text \<open>NonDecimalIntegerLiteral: \<open>0b\<close>/\<open>0B\<close>, \<open>0o\<close>/\<open>0O\<close>, \<open>0x\<close>/\<open>0X\<close> and at
  least one digit of the radix.\<close>

definition parse_nondecimal :: "string \<Rightarrow> nat option" where
  "parse_nondecimal s =
     (case s of
        c0 # c1 # ds \<Rightarrow>
          if c0 \<noteq> CHR ''0'' then None
          else if c1 = CHR ''b'' \<or> c1 = CHR ''B'' then parse_radix_digits 2 ds
          else if c1 = CHR ''o'' \<or> c1 = CHR ''O'' then parse_radix_digits 8 ds
          else if c1 = CHR ''x'' \<or> c1 = CHR ''X'' then parse_radix_digits 16 ds
          else None
      | _ \<Rightarrow> None)"

definition parse_decimal_digits :: "string \<Rightarrow> nat option" where
  "parse_decimal_digits ds =
     (if ds \<noteq> [] \<and> list_all is_digit ds then Some (dec_value ds) else None)"

text \<open>ExponentPart, or nothing (exponent 0).\<close>

definition parse_exponent :: "string \<Rightarrow> int option" where
  "parse_exponent s =
     (case s of
        [] \<Rightarrow> Some 0
      | c # r \<Rightarrow>
          if c = CHR ''e'' \<or> c = CHR ''E'' then
            (case r of
               [] \<Rightarrow> None
             | d # ds \<Rightarrow>
                 if d = CHR ''+'' then map_option int (parse_decimal_digits ds)
                 else if d = CHR ''-'' then map_option (\<lambda>n. - int n) (parse_decimal_digits ds)
                 else map_option int (parse_decimal_digits r))
          else None)"

text \<open>The mathematical value of \<open>ip.fp e x\<close>.\<close>

definition decimal_mv :: "string \<Rightarrow> string \<Rightarrow> int \<Rightarrow> rat" where
  "decimal_mv ip fp x = of_nat (dec_value (ip @ fp)) * ipow 10 (x - int (length fp))"

text \<open>StrUnsignedDecimalLiteral: \<open>Infinity\<close>, \<open>ip.fp\<close> with \<open>ip\<close> or \<open>fp\<close> nonempty,
  or \<open>ip\<close>, each followed by an optional exponent.\<close>

definition parse_unsigned_decimal :: "string \<Rightarrow> jsnum option" where
  "parse_unsigned_decimal s =
     (if s = ''Infinity'' then Some PosInf
      else
        (let ip = takeWhile is_digit s; r1 = dropWhile is_digit s
         in if r1 \<noteq> [] \<and> hd r1 = CHR ''.'' then
              (let fp = takeWhile is_digit (tl r1); r3 = dropWhile is_digit (tl r1)
               in if ip = [] \<and> fp = [] then None
                  else map_option (\<lambda>x. round_binary64 (decimal_mv ip fp x)) (parse_exponent r3))
            else if ip = [] then None
            else map_option (\<lambda>x. round_binary64 (decimal_mv ip [] x)) (parse_exponent r1)))"

definition parse_str_decimal :: "string \<Rightarrow> jsnum option" where
  "parse_str_decimal s =
     (case s of
        [] \<Rightarrow> None
      | c # r \<Rightarrow>
          if c = CHR ''+'' then parse_unsigned_decimal r
          else if c = CHR ''-'' then map_option jsnum_neg (parse_unsigned_decimal r)
          else parse_unsigned_decimal s)"

definition parse_str_numeric :: "string \<Rightarrow> jsnum option" where
  "parse_str_numeric s =
     (case parse_nondecimal s of
        Some n \<Rightarrow> Some (round_binary64 (of_nat n))
      | None \<Rightarrow> parse_str_decimal s)"

definition string_to_number :: "string \<Rightarrow> jsnum" where
  "string_to_number str =
     (let t = js_trim str
      in if t = [] then Fin 0
         else (case parse_str_numeric t of Some v \<Rightarrow> v | None \<Rightarrow> NaN))"

declare string_to_number_def [js_eval] js_trim_def [js_eval] js_whitespace_def [js_eval]
  parse_str_numeric_def [js_eval] parse_nondecimal_def [js_eval] parse_str_decimal_def [js_eval]
  parse_unsigned_decimal_def [js_eval] parse_exponent_def [js_eval] decimal_mv_def [js_eval]
  parse_decimal_digits_def [js_eval] is_digit_def [js_eval] digit_value_def [js_eval]
  digits_value_def [js_eval]

subsection \<open>White space and decimal digit strings\<close>

lemma js_trim_pad:
  assumes w1: "list_all js_whitespace w1" and w2: "list_all js_whitespace w2"
  shows "js_trim (w1 @ s @ w2) = js_trim s"
proof (cases "\<exists>c \<in> set s. \<not> js_whitespace c")
  case True
  then obtain c where c: "c \<in> set s" "\<not> js_whitespace c" by blast
  have d1: "dropWhile js_whitespace (w1 @ s @ w2) = dropWhile js_whitespace s @ w2"
    using w1 c by (simp add: dropWhile_append2 dropWhile_append1 list_all_iff)
  have "dropWhile js_whitespace (rev w2 @ rev (dropWhile js_whitespace s)) =
      dropWhile js_whitespace (rev (dropWhile js_whitespace s))"
    using w2 by (intro dropWhile_append2) (auto simp: list_all_iff)
  then show ?thesis using d1 by (simp add: js_trim_def)
next
  case False
  then have "dropWhile js_whitespace (w1 @ s @ w2) = []" using w1 w2
    by (simp add: list_all_iff dropWhile_eq_Nil_conv)
  moreover have "dropWhile js_whitespace s = []" using False by simp
  ultimately show ?thesis unfolding js_trim_def by (metis rev.simps(1) dropWhile.simps(1))
qed

lemma js_trim_id:
  assumes "\<forall>c \<in> set s. \<not> js_whitespace c"
  shows "js_trim s = s"
proof -
  have "dropWhile js_whitespace s = s" using assms by (cases s) auto
  moreover have "\<forall>c \<in> set (rev s). \<not> js_whitespace c" using assms by simp
  then have "dropWhile js_whitespace (rev s) = rev s" by (cases "rev s") auto
  ultimately show ?thesis by (simp add: js_trim_def)
qed

lemma digit_not_radix_mark:
  "is_digit c \<Longrightarrow> c \<noteq> CHR ''b'' \<and> c \<noteq> CHR ''B'' \<and> c \<noteq> CHR ''o'' \<and>
      c \<noteq> CHR ''O'' \<and> c \<noteq> CHR ''x'' \<and> c \<noteq> CHR ''X''"
  by (auto simp: is_digit_def)

lemma parse_nondecimal_digits:
  assumes "list_all is_digit s"
  shows "parse_nondecimal s = None"
proof (cases s)
  case Nil
  then show ?thesis by (simp add: parse_nondecimal_def)
next
  case (Cons c0 r)
  show ?thesis
  proof (cases r)
    case Nil
    with Cons show ?thesis by (simp add: parse_nondecimal_def)
  next
    case (Cons c1 ds)
    with \<open>s = c0 # r\<close> assms have "is_digit c1" by simp
    then have "c1 \<noteq> CHR ''b'' \<and> c1 \<noteq> CHR ''B'' \<and> c1 \<noteq> CHR ''o'' \<and>
      c1 \<noteq> CHR ''O'' \<and> c1 \<noteq> CHR ''x'' \<and> c1 \<noteq> CHR ''X''" by (rule digit_not_radix_mark)
    with Cons \<open>s = c0 # r\<close> show ?thesis by (simp add: parse_nondecimal_def)
  qed
qed

lemma digit_not_sign: "is_digit c \<Longrightarrow> c \<noteq> CHR ''+'' \<and> c \<noteq> CHR ''-'' \<and> c \<noteq> CHR ''.''"
  by (auto simp: is_digit_def)

lemma digit_not_I: "is_digit c \<Longrightarrow> c \<noteq> CHR ''I''"
  by (auto simp: is_digit_def)

lemma parse_unsigned_decimal_digits:
  assumes "ds \<noteq> []" "list_all is_digit ds"
  shows "parse_unsigned_decimal ds = Some (round_binary64 (of_nat (dec_value ds)))"
proof -
  obtain c r where cr: "ds = c # r" using assms(1) by (cases ds) auto
  then have inf: "ds \<noteq> ''Infinity''" using assms(2) digit_not_I [of c] by auto
  have tw: "takeWhile is_digit ds = ds" and dw: "dropWhile is_digit ds = []"
    using assms(2) by (simp_all add: list_all_iff)
  show ?thesis unfolding parse_unsigned_decimal_def Let_def tw dw
    using inf assms(1) by (simp add: parse_exponent_def decimal_mv_def)
qed


lemma digit_not_whitespace: "is_digit c \<Longrightarrow> \<not> js_whitespace c"
  by (auto simp: is_digit_def js_whitespace_def)

lemma string_to_number_digits:
  assumes "ds \<noteq> []" "list_all is_digit ds"
  shows "string_to_number ds = round_binary64 (of_nat (dec_value ds))"
proof -
  have t: "js_trim ds = ds"
    using assms(2) by (intro js_trim_id) (auto simp: list_all_iff digit_not_whitespace)
  obtain c r where cr: "ds = c # r" using assms(1) by (cases ds) auto
  have "is_digit c" using assms(2) cr by simp
  then have "parse_str_decimal ds = parse_unsigned_decimal ds"
    using cr digit_not_sign [of c] by (simp add: parse_str_decimal_def)
  then show ?thesis using assms t
    by (simp add: string_to_number_def parse_str_numeric_def parse_nondecimal_digits
        parse_unsigned_decimal_digits)
qed


text \<open>
  Reading back the decimal digits of a natural number \<open>n \<le> 2\<^sup>5\<^sup>3\<close> with
  StringToNumber gives exactly \<open>n\<close>.
\<close>

theorem string_to_number_nat_digits:
  assumes "n \<le> 2 ^ 53"
  shows "string_to_number (nat_digits n) = Fin (of_nat n)"
  using string_to_number_digits [of "nat_digits n"] assms
  by (simp add: nat_digits_all_digits round_binary64_of_nat)

theorem string_to_number_nat_digits_witness:
  "(9007199254740992::nat) \<le> 2 ^ 53 \<and> string_to_number (nat_digits 9007199254740992) = Fin 9007199254740992"
  using string_to_number_nat_digits [of 9007199254740992] by simp

lemma string_to_number_blank:
  assumes "list_all js_whitespace s"
  shows "string_to_number s = Fin 0"
proof -
  have "js_trim s = js_trim ([] @ [] @ s)" by simp
  also have "\<dots> = js_trim []" using js_trim_pad [of s "[]" "[]"] assms by simp
  finally show ?thesis by (simp add: string_to_number_def js_trim_def)
qed

text \<open>
  White space around a numeric string (tabs, line breaks, spaces, no-break spaces)
  does not change the Number it denotes.
\<close>

theorem string_to_number_pad:
  assumes "list_all js_whitespace w1" "list_all js_whitespace w2"
  shows "string_to_number (w1 @ s @ w2) = string_to_number s"
  using assms by (simp add: string_to_number_def js_trim_pad)

theorem string_to_number_pad_witness:
  "list_all js_whitespace '' '' \<and> list_all js_whitespace [CHR 0x0A] \<and>
   string_to_number ('' '' @ ''12500'' @ [CHR 0x0A]) = string_to_number ''12500''"
  using string_to_number_pad [of "'' ''" "[CHR 0x0A]" "''12500''"] by (simp add: js_whitespace_def)

end
