(* ===== verification/NumberToString.thy ===== *)
theory NumberToString
  imports StringToNumber
begin

section \<open>Number::toString (radix 10)\<close>

text \<open>
  ECMA-262 6.1.6.1.20 Number::toString(x, 10). For a finite nonzero \<open>x\<close> it chooses
  integers \<open>n\<close>, \<open>k \<ge> 1\<close>, \<open>s\<close> with \<open>10\<^sup>k\<^sup>-\<^sup>1 \<le> s < 10\<^sup>k\<close> such that the Number
  value of \<open>s \<cdot> 10\<^sup>n\<^sup>-\<^sup>k\<close> is \<open>x\<close>, with \<open>k\<close> as small as possible and, among the
  \<open>s\<close> for that \<open>k\<close>, the one whose value is closest to \<open>x\<close> (the even one on a tie);
  then it writes the digits of \<open>s\<close> in plain or exponential notation depending on \<open>n\<close>.

  The search tries \<open>k = 1, 2, \<dots>\<close>. For a given \<open>k\<close> the values \<open>s \<cdot> 10\<^sup>n\<^sup>-\<^sup>k\<close> that
  round to \<open>x\<close> form an interval around \<open>x\<close>, so only the two neighbours of \<open>x\<close> on the
  grid (\<open>\<lfloor>t\<rfloor>\<close> and \<open>\<lceil>t\<rceil>\<close> with \<open>t = x \<cdot> 10\<^sup>k\<^sup>-\<^sup>n\<close>, the upper one possibly
  carried into the next decade) need to be tested. A binary64 value \<open>p / 2\<^sup>j\<close> has an
  exact decimal expansion with at most \<open>digits(p) + j\<close> significant digits, where the
  test always succeeds; that bounds the search (\<open>digit_budget\<close>). A rational that is not
  a binary64 value is never produced by the model; for it the search may fail and
  17 significant digits are written.
\<close>

definition decimal_candidates :: "rat \<Rightarrow> nat \<Rightarrow> (int \<times> nat) list" where
  "decimal_candidates x k =
     (let n0 = floor_log 10 x + 1;
          t = x * ipow 10 (int k - n0);
          lo = nat \<lfloor>t\<rfloor>; hi = nat \<lceil>t\<rceil>
      in [(n0, lo)] @ (if hi = 10 ^ k then [(n0 + 1, 10 ^ (k - 1))] else [(n0, hi)]))"

definition scaled_value :: "int \<Rightarrow> nat \<Rightarrow> nat \<Rightarrow> rat" where
  "scaled_value n k s = of_nat s * ipow 10 (n - int k)"

definition closer_candidate :: "rat \<Rightarrow> nat \<Rightarrow> int \<times> nat \<Rightarrow> int \<times> nat \<Rightarrow> int \<times> nat" where
  "closer_candidate x k c1 c2 =
     (let d1 = \<bar>scaled_value (fst c1) k (snd c1) - x\<bar>;
          d2 = \<bar>scaled_value (fst c2) k (snd c2) - x\<bar>
      in if d1 < d2 then c1 else if d2 < d1 then c2 else if even (snd c1) then c1 else c2)"

definition pick_decimal :: "rat \<Rightarrow> nat \<Rightarrow> (int \<times> nat) option" where
  "pick_decimal x k =
     (case filter (\<lambda>(n, s). round_binary64 (scaled_value n k s) = Fin x) (decimal_candidates x k) of
        [] \<Rightarrow> None
      | [c] \<Rightarrow> Some c
      | c1 # c2 # _ \<Rightarrow> Some (closer_candidate x k c1 c2))"

fun shortest_decimal :: "nat \<Rightarrow> rat \<Rightarrow> nat \<Rightarrow> (int \<times> nat \<times> nat) option" where
  "shortest_decimal 0 x k = None"
| "shortest_decimal (Suc fuel) x k =
     (case pick_decimal x k of
        Some (n, s) \<Rightarrow> Some (n, k, s)
      | None \<Rightarrow> shortest_decimal fuel x (Suc k))"

definition digit_budget :: "rat \<Rightarrow> nat" where
  "digit_budget x =
     (let (p, q) = quotient_of x
      in length (nat_digits (nat \<bar>p\<bar>)) + nat_log 2 (nat q) + 1)"

definition decimal_triple :: "rat \<Rightarrow> int \<times> nat \<times> nat" where
  "decimal_triple x =
     (case shortest_decimal (digit_budget x) x 1 of
        Some r \<Rightarrow> r
      | None \<Rightarrow>
          (let n0 = floor_log 10 x + 1
           in (n0, 17, nat (round_half_even (x * ipow 10 (17 - n0))))))"

text \<open>Steps 6 to 10 of Number::toString: the notation chosen by the decimal exponent.\<close>

definition format_decimal :: "int \<Rightarrow> nat \<Rightarrow> nat \<Rightarrow> string" where
  "format_decimal n k s =
     (let ds = nat_digits s
      in if int k \<le> n \<and> n \<le> 21 then ds @ replicate (nat n - k) (CHR ''0'')
         else if 0 < n \<and> n \<le> 21 then take (nat n) ds @ ''.'' @ drop (nat n) ds
         else if -6 < n \<and> n \<le> 0 then ''0.'' @ replicate (nat (- n)) (CHR ''0'') @ ds
         else
           (let e = n - 1;
                es = (if e < 0 then CHR ''-'' else CHR ''+'') # nat_digits (nat \<bar>e\<bar>)
            in if k = 1 then ds @ ''e'' @ es
               else take 1 ds @ ''.'' @ drop 1 ds @ ''e'' @ es))"

definition positive_to_string :: "rat \<Rightarrow> string" where
  "positive_to_string x = (case decimal_triple x of (n, k, s) \<Rightarrow> format_decimal n k s)"

fun number_to_string :: "jsnum \<Rightarrow> string" where
  "number_to_string NaN = ''NaN''"
| "number_to_string PosInf = ''Infinity''"
| "number_to_string NegInf = ''-Infinity''"
| "number_to_string (Fin x) =
     (if x = 0 then ''0''
      else if x < 0 then CHR ''-'' # positive_to_string (- x)
      else positive_to_string x)"

subsection \<open>Integers: the search and the notation\<close>

text \<open>For a positive integer \<open>n < 2\<^sup>5\<^sup>3\<close> written \<open>t \<cdot> 10\<^sup>z\<close> with \<open>t\<close> not a multiple
  of 10, every candidate tried with fewer digits than \<open>t\<close> has is a multiple of a power of
  ten that \<open>n\<close> is not, hence another integer, which rounds to another Number; with the
  digits of \<open>t\<close> the candidate is \<open>n\<close> itself. So the search stops there, within its fuel,
  and the plain notation writes the digits of \<open>t\<close> followed by \<open>z\<close> zeros.\<close>

lemma round_half_even_ge_floor: "\<lfloor>s\<rfloor> \<le> round_half_even s"
  by (simp add: round_half_even_def Let_def)

lemma round_pos_large:
  assumes q: "ipow 2 53 \<le> q" and r: "round_pos q = Fin x"
  shows "ipow 2 53 \<le> x"
proof -
  let ?e = "floor_log 2 q"
  have q0: "0 < q" using q ipow_pos [of 2 53] by linarith
  have fb: "ipow 2 ?e \<le> q \<and> q < ipow 2 (?e + 1)" by (rule floor_log_bounds) (use q0 in simp_all)
  then have "ipow 2 53 < ipow 2 (?e + 1)" using q by linarith
  then have e: "53 \<le> ?e" by (simp add: ipow_less_iff)
  then have b: "binade q = ?e" by (simp add: binade_def)
  let ?u = "ipow 2 (?e - 52)"
  have u0: "0 < ?u" by (simp add: ipow_pos)
  have ee: "ipow 2 ?e = ipow 2 52 * ?u" by (simp add: ipow_add [symmetric])
  then have "ipow 2 52 \<le> q / ?u" using fb u0 by (simp add: pos_le_divide_eq)
  moreover have i52: "ipow 2 52 = of_int (2 ^ 52)" by (simp add: ipow_def)
  ultimately have "2 ^ 52 \<le> \<lfloor>q / ?u\<rfloor>" by (simp add: le_floor_iff)
  then have r52: "2 ^ 52 \<le> round_half_even (q / ?u)" using round_half_even_ge_floor [of "q / ?u"] by linarith
  have "of_int (2 ^ 52) * ?u \<le> of_int (round_half_even (q / ?u)) * ?u"
    by (rule mult_right_mono) (use r52 less_imp_le [OF u0] in simp_all)
  moreover have "of_int (2 ^ 52) * ?u = ipow 2 ?e" using ee i52 by simp
  moreover have "ipow 2 53 \<le> ipow 2 ?e" using e by (simp add: ipow_le_iff)
  moreover have "x = of_int (round_half_even (q / ?u)) * ?u"
    using r by (simp add: round_pos_def b Let_def split: if_splits)
  ultimately show ?thesis by linarith
qed

lemma round_binary64_nat_inj:
  assumes "0 < n" "n < 2 ^ 53" and r: "round_binary64 (of_nat c) = Fin (of_nat n)"
  shows "c = n"
proof (cases "c \<le> 2 ^ 53")
  case True
  then show ?thesis using r by (simp add: round_binary64_of_nat)
next
  case False
  then have "ipow 2 53 \<le> (of_nat c :: rat)"
    by (simp add: ipow_def)
  moreover have "round_pos (of_nat c) = Fin (of_nat n)" using r False by (simp add: round_binary64_def)
  ultimately have "ipow 2 53 \<le> (of_nat n :: rat)" by (rule round_pos_large)
  then have "(2::rat) ^ 53 \<le> of_nat n" by (simp add: ipow_def)
  then have "2 ^ 53 \<le> n" by (metis of_nat_le_iff of_nat_numeral of_nat_power)
  with assms(2) show ?thesis by simp
qed

lemma length_nat_digits: "length (nat_digits n) = Suc (nat_log 10 n)"
proof (induction n rule: nat_digits.induct)
  case (1 n)
  then show ?case by (subst nat_digits.simps, subst nat_log.simps) simp
qed

lemma nat_digits_bounds:
  assumes "0 < n"
  shows "10 ^ (length (nat_digits n) - 1) \<le> n \<and> n < 10 ^ length (nat_digits n)"
  using nat_log_bounds [of 10 n] assms by (simp add: length_nat_digits)

lemma digit_char_0: "digit_char 0 = CHR ''0''"
  by (simp add: digit_char_def char_of_def bit_Suc_0_iff)

lemma nat_digits_times_10: "0 < t \<Longrightarrow> nat_digits (t * 10) = nat_digits t @ ''0''"
  by (subst nat_digits.simps) (simp add: digit_char_0)

lemma nat_digits_times_pow10:
  "0 < t \<Longrightarrow> nat_digits (t * 10 ^ z) = nat_digits t @ replicate z CHR ''0''"
proof (induction z)
  case (Suc z)
  have "t * 10 ^ Suc z = (t * 10 ^ z) * 10" by simp
  moreover have "0 < t * 10 ^ z" using Suc.prems by simp
  ultimately have "nat_digits (t * 10 ^ Suc z) = nat_digits (t * 10 ^ z) @ ''0''"
    by (simp only: nat_digits_times_10)
  then show ?case using Suc by (simp add: replicate_append_same [symmetric])
qed simp

lemma trailing_zeros:
  fixes n :: nat
  assumes "0 < n"
  shows "\<exists>t z. n = t * 10 ^ z \<and> \<not> 10 dvd t"
  using assms
proof (induction n rule: less_induct)
  case (less n)
  show ?case
  proof (cases "10 dvd n")
    case True
    then obtain m where m: "n = 10 * m" by blast
    then have "m < n" "0 < m" using less.prems by simp_all
    then obtain t z where "m = t * 10 ^ z" "\<not> 10 dvd t" using less.IH by blast
    then show ?thesis using m by (metis mult.left_commute power_Suc)
  next
    case False
    then show ?thesis by (metis mult.right_neutral power_0)
  qed
qed

lemma floor_log_10_nat: "0 < n \<Longrightarrow> floor_log 10 (of_nat n) = int (nat_log 10 n)"
  by (simp add: floor_log_def)

lemma scaled_value_nat:
  "k \<le> D \<Longrightarrow> scaled_value (int D) k s = of_nat (s * 10 ^ (D - k))"
proof -
  assume "k \<le> D"
  then have e: "int D - int k = int (D - k)" by simp
  show ?thesis unfolding scaled_value_def e ipow_nat by simp
qed

lemma scaled_value_carry:
  "1 \<le> k \<Longrightarrow> k \<le> D \<Longrightarrow> scaled_value (int D + 1) k (10 ^ (k - 1)) = of_nat (10 ^ D)"
proof -
  assume k: "1 \<le> k" "k \<le> D"
  then have e: "int D + 1 - int k = int (D + 1 - k)" by simp
  have p: "(10::nat) ^ (k - 1) * 10 ^ (D + 1 - k) = 10 ^ D"
    using k by (simp flip: power_add)
  have "scaled_value (int D + 1) k (10 ^ (k - 1)) = of_nat (10 ^ (k - 1)) * of_nat 10 ^ (D + 1 - k)"
    unfolding scaled_value_def e ipow_nat ..
  also have "\<dots> = of_nat (10 ^ (k - 1) * 10 ^ (D + 1 - k))" by simp
  finally show ?thesis by (simp only: p)
qed

lemma decimal_candidates_shape:
  assumes "0 < n"
  shows "set (decimal_candidates (of_nat n) k) \<subseteq>
           {(a, s). a = int (length (nat_digits n))} \<union> {(int (length (nat_digits n)) + 1, 10 ^ (k - 1))}"
  using assms by (auto simp: decimal_candidates_def Let_def floor_log_10_nat length_nat_digits)

lemma not_pow10_dvd:
  assumes "n = t * 10 ^ z" and "\<not> 10 dvd t" and "z < p"
  shows "\<not> 10 ^ p dvd (n::nat)"
proof
  assume "10 ^ p dvd n"
  moreover have "(10::nat) ^ p = 10 ^ z * 10 ^ (p - z)" using assms(3) by (simp flip: power_add)
  ultimately have "10 ^ z * 10 ^ (p - z) dvd 10 ^ z * t" using assms(1) by (simp add: mult.commute)
  then have "10 ^ (p - z) dvd t" by simp
  moreover have "(10::nat) dvd 10 ^ (p - z)" using assms(3) by simp
  ultimately show False using assms(2) dvd_trans by blast
qed

lemma pick_decimal_none:
  assumes n: "0 < n" "n < 2 ^ 53" and tz: "n = t * 10 ^ z" "\<not> 10 dvd t"
    and k: "1 \<le> k" "k + z < length (nat_digits n)"
  shows "pick_decimal (of_nat n) k = None"
proof -
  let ?D = "length (nat_digits n)"
  have bad: "round_binary64 (scaled_value a k s) \<noteq> Fin (of_nat n)"
    if "(a, s) \<in> set (decimal_candidates (of_nat n) k)" for a s
  proof -
    have "\<exists>c. scaled_value a k s = of_nat c \<and> c \<noteq> n"
    proof (cases "a = int ?D")
      case True
      have "\<not> 10 ^ (?D - k) dvd n" using not_pow10_dvd [OF tz] k by simp
      then have "s * 10 ^ (?D - k) \<noteq> n" by (metis dvd_triv_right)
      moreover have "scaled_value a k s = of_nat (s * 10 ^ (?D - k))"
        using True k by (simp only: scaled_value_nat)
      ultimately show ?thesis by blast
    next
      case False
      then have "(a, s) = (int ?D + 1, 10 ^ (k - 1))"
        using that decimal_candidates_shape [OF n(1), of k] by auto
      moreover have "n < 10 ^ ?D" using nat_digits_bounds [OF n(1)] by simp
      moreover have "scaled_value (int ?D + 1) k (10 ^ (k - 1)) = of_nat (10 ^ ?D)"
        using k by (intro scaled_value_carry) simp_all
      ultimately show ?thesis by auto
    qed
    then obtain c where "scaled_value a k s = of_nat c" "c \<noteq> n" by blast
    then show ?thesis using round_binary64_nat_inj [OF n, of c] by auto
  qed
  then have "filter (\<lambda>(a, s). round_binary64 (scaled_value a k s) = Fin (of_nat n))
      (decimal_candidates (of_nat n) k) = []"
    by (auto simp: filter_empty_conv)
  then show ?thesis by (simp add: pick_decimal_def)
qed

lemma closer_candidate_same: "closer_candidate x k c c = c"
  by (simp add: closer_candidate_def Let_def)

lemma pick_decimal_exact:
  assumes n: "0 < n" "n < 2 ^ 53" and tz: "n = t * 10 ^ z"
  shows "pick_decimal (of_nat n) (length (nat_digits t)) = Some (int (length (nat_digits n)), t)"
proof -
  let ?D = "length (nat_digits n)" and ?K = "length (nat_digits t)"
  have t0: "0 < t" using n tz by (cases t) auto
  have D: "?D = ?K + z" using tz t0 by (simp add: nat_digits_times_pow10)
  have tb: "t < 10 ^ ?K" using nat_digits_bounds [OF t0] by simp
  have "of_nat n * ipow 10 (int ?K - (int (nat_log 10 n) + 1)) = (of_nat t :: rat)"
  proof -
    have "int ?K - (int (nat_log 10 n) + 1) = - int z" using D by (simp add: length_nat_digits)
    then show ?thesis using tz by (simp add: ipow_minus)
  qed
  then have "decimal_candidates (of_nat n) ?K = [(int ?D, t), (int ?D, t)]"
    using n(1) tb by (simp add: decimal_candidates_def Let_def floor_log_10_nat length_nat_digits)
  moreover have "scaled_value (int ?D) ?K t = of_nat n"
  proof -
    have "scaled_value (int ?D) ?K t = of_nat (t * 10 ^ (?D - ?K))" by (rule scaled_value_nat) (simp add: D)
    also have "t * 10 ^ (?D - ?K) = n" using D tz by simp
    finally show ?thesis .
  qed
  moreover have "round_binary64 (of_nat n) = Fin (of_nat n)" using n(2) by (simp add: round_binary64_of_nat)
  ultimately show ?thesis by (simp add: pick_decimal_def closer_candidate_same)
qed

lemma shortest_decimal_reach:
  assumes "\<forall>j. k \<le> j \<and> j < K \<longrightarrow> pick_decimal x j = None" and "pick_decimal x K = Some (a, s)"
    and "k \<le> K" and "K - k < fuel"
  shows "shortest_decimal fuel x k = Some (a, K, s)"
  using assms
proof (induction fuel arbitrary: k)
  case (Suc fuel)
  show ?case
  proof (cases "k = K")
    case True
    then show ?thesis using Suc.prems(2) by simp
  next
    case False
    then have "pick_decimal x k = None" using Suc.prems(1,3) by simp
    moreover have "shortest_decimal fuel x (Suc k) = Some (a, K, s)"
      using Suc.IH [of "Suc k"] Suc.prems False by simp
    ultimately show ?thesis by simp
  qed
qed simp

lemma digit_budget_nat: "digit_budget (of_nat n) = length (nat_digits n) + 1"
proof -
  have "quotient_of (of_nat n :: rat) = (int n, 1)"
    using quotient_of_int [of "int n"] by simp
  then show ?thesis by (simp add: digit_budget_def nat_log.simps)
qed

lemma shortest_decimal_nat:
  assumes n: "0 < n" "n < 2 ^ 53" and tz: "n = t * 10 ^ z" "\<not> 10 dvd t"
  shows "shortest_decimal (digit_budget (of_nat n)) (of_nat n) 1 =
           Some (int (length (nat_digits n)), length (nat_digits t), t)"
proof -
  have t0: "0 < t" using n tz by (cases t) auto
  have D: "length (nat_digits n) = length (nat_digits t) + z" using tz t0 by (simp add: nat_digits_times_pow10)
  have K: "1 \<le> length (nat_digits t)" by (simp add: Suc_le_eq)
  show ?thesis
  proof (rule shortest_decimal_reach)
    show "\<forall>j. 1 \<le> j \<and> j < length (nat_digits t) \<longrightarrow> pick_decimal (of_nat n) j = None"
      using pick_decimal_none [OF n tz] D by simp
    show "pick_decimal (of_nat n) (length (nat_digits t)) = Some (int (length (nat_digits n)), t)"
      using pick_decimal_exact [OF n tz(1)] .
  qed (use K D in \<open>simp_all add: digit_budget_nat\<close>)
qed

lemma positive_to_string_nat:
  assumes n: "0 < n" "n < 2 ^ 53"
  shows "positive_to_string (of_nat n) = nat_digits n"
proof -
  obtain t z where tz: "n = t * 10 ^ z" "\<not> 10 dvd t" using trailing_zeros [OF n(1)] by blast
  have t0: "0 < t" using n tz by (cases t) auto
  have D: "length (nat_digits n) = length (nat_digits t) + z" using tz t0 by (simp add: nat_digits_times_pow10)
  have "10 ^ (length (nat_digits n) - 1) \<le> n" using nat_digits_bounds [OF n(1)] by simp
  moreover have "n < (10::nat) ^ 16" using n(2) by simp
  ultimately have l: "(10::nat) ^ (length (nat_digits n) - 1) < 10 ^ 16" by linarith
  have "length (nat_digits n) - 1 < 16" by (rule power_less_imp_less_exp [OF _ l]) simp
  then have "length (nat_digits n) \<le> 21" by simp
  then show ?thesis
    using shortest_decimal_nat [OF n tz] D tz t0
    by (simp add: positive_to_string_def decimal_triple_def format_decimal_def nat_digits_times_pow10)
qed

text \<open>
  \<open>String(n)\<close> of a positive integer Number below \<open>2\<^sup>5\<^sup>3\<close> is its plain decimal
  notation, without exponent or fraction; \<open>Number([n])\<close> and \<open>[n].join()\<close> see these digits.
\<close>

theorem number_to_string_nat:
  assumes "0 < n" and "n < 2 ^ 53"
  shows "number_to_string (Fin (of_nat n)) = nat_digits n"
  using positive_to_string_nat [OF assms] assms(1) by simp

theorem number_to_string_nat_witness:
  "(0::nat) < 1000000 \<and> (1000000::nat) < 2 ^ 53 \<and> number_to_string (Fin 1000000) = ''1000000''"
proof -
  have "nat_digits 1000000 = ''1000000''"
    by (simp add: nat_digits.simps [of 1000000] nat_digits.simps [of 100000] nat_digits.simps [of 10000]
        nat_digits.simps [of 1000] nat_digits.simps [of 100] nat_digits.simps [of 10] nat_digits.simps [of 1]
        nat_digits.simps [of 0] nat_digits.simps [of "Suc 0"] digit_char_def char_of_def bit_Suc_0_iff)
  then show ?thesis using number_to_string_nat [of 1000000] by simp
qed

text \<open>
  The digit search of Number::toString ends within its fuel for every positive
  integer below \<open>2\<^sup>5\<^sup>3\<close>: it stops at the number of significant digits, so the 17-digit
  fallback of \<open>decimal_triple\<close> is never taken.
\<close>

theorem shortest_decimal_terminates_nat:
  assumes "0 < n" and "n < 2 ^ 53"
  shows "\<exists>k s. shortest_decimal (digit_budget (of_nat n)) (of_nat n) 1 = Some (int (length (nat_digits n)), k, s) \<and>
           k \<le> length (nat_digits n) \<and> s * 10 ^ (length (nat_digits n) - k) = n"
proof -
  obtain t z where tz: "n = t * 10 ^ z" "\<not> 10 dvd t" using trailing_zeros [OF assms(1)] by blast
  have t0: "0 < t" using assms tz by (cases t) auto
  have D: "length (nat_digits n) = length (nat_digits t) + z" using tz t0 by (simp add: nat_digits_times_pow10)
  show ?thesis using shortest_decimal_nat [OF assms tz] D tz by auto
qed

theorem shortest_decimal_terminates_nat_witness:
  "(0::nat) < 12500 \<and> (12500::nat) < 2 ^ 53 \<and>
   (\<exists>k s. shortest_decimal (digit_budget (of_nat 12500)) (of_nat 12500) 1 =
      Some (int (length (nat_digits 12500)), k, s) \<and>
      k \<le> length (nat_digits 12500) \<and> s * 10 ^ (length (nat_digits 12500) - k) = (12500::nat))"
  using shortest_decimal_terminates_nat [of 12500] by simp

subsection \<open>Every binary64 value: the search ends within its fuel\<close>

text \<open>A positive finite binary64 value \<open>x = m \<cdot> 2\<^sup>k\<close> is dyadic: in lowest terms
  \<open>x = p / 2\<^sup>j\<close>, and \<open>x \<cdot> 10\<^sup>j = p \<cdot> 5\<^sup>j\<close> is an integer. With
  \<open>K = \<lfloor>log\<^sub>1\<^sub>0 x\<rfloor> + 1 + j\<close> digits the scaled value is that integer, both candidates are
  \<open>x\<close> itself, which rounds to itself; and \<open>K\<close> is below \<open>digit_budget x\<close>, the number of
  digits of \<open>p\<close> plus \<open>j\<close> plus one. So the search stops at the latest at \<open>K\<close>.\<close>

lemma floor_log_ge:
  assumes b: "1 < b" and e: "ipow b e \<le> q"
  shows "e \<le> floor_log b q"
proof -
  have q: "0 < q" using ipow_pos [of b e] b e by linarith
  have "q < ipow b (floor_log b q + 1)" using floor_log_bounds [OF b q] by simp
  then have "ipow b e < ipow b (floor_log b q + 1)" using e by linarith
  then show ?thesis using b by (simp add: ipow_less_iff)
qed

lemma floor_log_mono:
  assumes b: "1 < b" and q: "0 < q" and qr: "q \<le> r"
  shows "floor_log b q \<le> floor_log b r"
  using floor_log_bounds [OF b q] qr by (intro floor_log_ge [OF b]) simp

lemma dvd_pow2: "d dvd (2::nat) ^ n \<Longrightarrow> \<exists>j. d = 2 ^ j"
proof (induction n arbitrary: d)
  case 0
  then show ?case by (intro exI [of _ 0]) simp
next
  case (Suc n)
  show ?case
  proof (cases "even d")
    case True
    then obtain d' where d: "d = 2 * d'" by blast
    then have "d' dvd 2 ^ n" using Suc.prems by simp
    then obtain j where "d' = 2 ^ j" using Suc.IH by blast
    then show ?thesis using d by (intro exI [of _ "Suc j"]) simp
  next
    case False
    then have "coprime d 2" by (simp add: coprime_commute)
    then have "d dvd 2 ^ n" using Suc.prems coprime_dvd_mult_right_iff [of d 2 "2 ^ n"] by simp
    then show ?thesis using Suc.IH by blast
  qed
qed

lemma quotient_of_dyadic:
  assumes x: "x * 2 ^ n = of_int i"
  shows "\<exists>j. snd (quotient_of x) = 2 ^ j"
proof -
  obtain p q where pq: "quotient_of x = (p, q)" by (cases "quotient_of x")
  have q: "0 < q" using quotient_of_denom_pos [OF pq] .
  have xq: "x = of_int p / of_int q" using quotient_of_div [OF pq] .
  have cop: "coprime p q" using quotient_of_coprime [OF pq] .
  have "of_int (p * 2 ^ n) = (of_int (i * q) :: rat)" using x q by (simp add: xq field_simps)
  then have "p * 2 ^ n = i * q" by (simp only: of_int_eq_iff)
  then have "q dvd 2 ^ n * p" by (simp add: mult.commute)
  then have "q dvd 2 ^ n" using cop coprime_dvd_mult_left_iff [of q p "2 ^ n"] by (simp add: coprime_commute)
  then have "nat q dvd nat (2 ^ n)" using q by (simp add: nat_dvd_iff)
  then have "nat q dvd 2 ^ n" by (simp add: nat_power_eq)
  then obtain j where "nat q = 2 ^ j" using dvd_pow2 by blast
  then have "q = 2 ^ j" using q by (metis int_nat_eq less_imp_le of_nat_numeral of_nat_power)
  then show ?thesis using pq by simp
qed

lemma nat_log_2_pow [simp]: "nat_log 2 (2 ^ j) = j"
proof (induction j)
  case (Suc j)
  then show ?case by (subst nat_log.simps) simp
qed (simp add: nat_log.simps)

lemma pick_decimal_scaled:
  assumes x: "0 < x" and r: "round_binary64 x = Fin x" and J: "0 \<le> J"
    and t: "x * ipow 10 J = of_nat T" and K: "int K = floor_log 10 x + 1 + J"
  shows "pick_decimal x K = Some (floor_log 10 x + 1, T)"
proof -
  let ?n0 = "floor_log 10 x + 1"
  have e: "int K - ?n0 = J" using K by simp
  have "x < ipow 10 ?n0" using floor_log_bounds [of 10 x] x by simp
  then have "x * ipow 10 J < ipow 10 ?n0 * ipow 10 J" by simp
  also have "\<dots> = ipow 10 (int K)" by (simp add: K ipow_add [symmetric] add.commute)
  finally have "of_nat T < (of_nat (10 ^ K) :: rat)" using t by simp
  then have "T < 10 ^ K" by (simp only: of_nat_less_iff)
  then have ne: "T \<noteq> 10 ^ K" by simp
  have cands: "decimal_candidates x K = [(?n0, T), (?n0, T)]"
    using ne by (simp add: decimal_candidates_def Let_def e t)
  have e2: "?n0 - int K = - J" using K by simp
  have "scaled_value ?n0 K T = of_nat T * ipow 10 (- J)" by (simp only: scaled_value_def e2)
  also have "\<dots> = x" by (simp add: t [symmetric] ipow_minus)
  finally have sv: "scaled_value ?n0 K T = x" .
  show ?thesis by (simp add: pick_decimal_def cands sv r closer_candidate_same)
qed

lemma shortest_decimal_some:
  "pick_decimal x K = Some c \<Longrightarrow> k \<le> K \<Longrightarrow> K - k < fuel \<Longrightarrow> \<exists>r. shortest_decimal fuel x k = Some r"
proof (induction fuel arbitrary: k)
  case (Suc fuel)
  show ?case
  proof (cases "pick_decimal x k")
    case None
    then have "k \<noteq> K" using Suc.prems(1) by auto
    then have "\<exists>r. shortest_decimal fuel x (Suc k) = Some r" using Suc by (intro Suc.IH) auto
    then show ?thesis using None by simp
  qed auto
qed simp

lemma pick_decimal_in:
  assumes "pick_decimal x k = Some c"
  shows "c \<in> set (filter (\<lambda>(n, s). round_binary64 (scaled_value n k s) = Fin x) (decimal_candidates x k))"
proof -
  obtain ys where ys: "filter (\<lambda>(n, s). round_binary64 (scaled_value n k s) = Fin x) (decimal_candidates x k) = ys"
    by simp
  have "c \<in> set ys"
    using assms
    by (auto simp: pick_decimal_def ys closer_candidate_def Let_def split: list.splits if_splits)
  then show ?thesis using ys by simp
qed

lemma pick_decimal_sound:
  "pick_decimal x k = Some (n, s) \<Longrightarrow> round_binary64 (scaled_value n k s) = Fin x"
  using pick_decimal_in [of x k "(n, s)"] by simp

lemma shortest_decimal_sound:
  "shortest_decimal fuel x k = Some (n, K, s) \<Longrightarrow> pick_decimal x K = Some (n, s)"
  by (induction fuel arbitrary: k) (auto split: option.splits)

lemma binary64_dyadic:
  "of_int m * ipow 2 k * 2 ^ nat (- k) = (of_int (m * 2 ^ nat k) :: rat)"
proof -
  have "(2::rat) ^ nat (- k) = ipow 2 (int (nat (- k)))" by (simp only: ipow_nat of_nat_numeral)
  then have "ipow 2 k * 2 ^ nat (- k) = ipow 2 (k + int (nat (- k)))" by (simp add: ipow_add)
  also have "k + int (nat (- k)) = int (nat k)" by simp
  finally have "ipow 2 k * 2 ^ nat (- k) = 2 ^ nat k" by (simp only: ipow_nat of_nat_numeral)
  then show ?thesis by (simp add: mult.assoc)
qed

lemma shortest_decimal_binary64:
  assumes m: "0 < m" "m < 2 ^ 53" and k: "-1074 \<le> k" "k \<le> 971"
  shows "\<exists>n K s. shortest_decimal (digit_budget (of_int m * ipow 2 k)) (of_int m * ipow 2 k) 1 = Some (n, K, s) \<and>
           pick_decimal (of_int m * ipow 2 k) K = Some (n, s)"
proof -
  define x where "x = of_int m * ipow 2 k"
  have x: "0 < x" using m by (simp add: x_def)
  have r: "round_binary64 x = Fin x" using m k by (simp add: x_def round_binary64_exact)
  obtain j where "snd (quotient_of x) = 2 ^ j"
    using quotient_of_dyadic [OF binary64_dyadic [of m k, folded x_def]] by blast
  then obtain p where pq: "quotient_of x = (p, 2 ^ j)" by (metis prod.collapse)
  have xp: "x = of_int p / 2 ^ j" using quotient_of_div [OF pq] by simp
  have p: "0 < p" using x by (simp add: xp zero_less_divide_iff)
  have t: "x * ipow 10 (int j) = of_nat (nat p * 5 ^ j)"
  proof -
    have "x * ipow 10 (int j) = of_int p * (10 ^ j / 2 ^ j)" by (simp add: xp)
    also have "(10::rat) ^ j / 2 ^ j = 5 ^ j" by (simp add: power_divide [symmetric])
    finally show ?thesis using p by simp
  qed
  have lo: "- int j \<le> floor_log 10 x"
  proof (rule floor_log_ge)
    have "ipow 10 (- int j) = 1 / 10 ^ j" by (simp add: ipow_minus)
    also have "\<dots> \<le> 1 / 2 ^ j" by (simp add: frac_le power_mono)
    also have "\<dots> \<le> x" using p by (simp add: xp divide_right_mono)
    finally show "ipow 10 (- int j) \<le> x" .
  qed simp
  have hi: "floor_log 10 x \<le> int (nat_log 10 (nat p))"
  proof -
    have f: "floor_log 10 (of_nat (nat p)) = int (nat_log 10 (nat p))"
      using p by (intro floor_log_10_nat) simp
    have "x \<le> of_nat (nat p)" using p by (simp add: xp divide_le_eq)
    then have "floor_log 10 x \<le> floor_log 10 (of_nat (nat p))" using x by (intro floor_log_mono) simp_all
    then show ?thesis using f by linarith
  qed
  define K where "K = nat (floor_log 10 x + 1 + int j)"
  have K: "int K = floor_log 10 x + 1 + int j" using lo by (simp add: K_def)
  have pick: "pick_decimal x K = Some (floor_log 10 x + 1, nat p * 5 ^ j)"
    by (rule pick_decimal_scaled [OF x r _ t K]) simp
  have budget: "digit_budget x = Suc (nat_log 10 (nat p)) + j + 1"
    using p by (simp add: digit_budget_def pq length_nat_digits nat_power_eq)
  have "1 \<le> K" "K - 1 < digit_budget x" using lo hi K by (simp_all add: budget)
  then obtain res where "shortest_decimal (digit_budget x) x 1 = Some res"
    using shortest_decimal_some [OF pick] by blast
  moreover obtain n K' s where "res = (n, K', s)" by (cases res)
  ultimately show ?thesis
    using shortest_decimal_sound unfolding x_def [symmetric] by blast
qed

text \<open>
  Number::toString's digit search ends within its fuel for every positive finite
  binary64 value \<open>m \<cdot> 2\<^sup>k\<close>, so the 17-digit fallback of \<open>decimal_triple\<close> is never
  taken, and the digits it finds read back (rounded to binary64) as the value itself.
\<close>

theorem shortest_decimal_terminates:
  assumes "0 < m" "m < 2 ^ 53" "-1074 \<le> k" "k \<le> 971"
  shows "\<exists>n K s. shortest_decimal (digit_budget (of_int m * ipow 2 k)) (of_int m * ipow 2 k) 1 = Some (n, K, s) \<and>
           round_binary64 (scaled_value n K s) = Fin (of_int m * ipow 2 k)"
  using shortest_decimal_binary64 [OF assms] pick_decimal_sound by blast

theorem shortest_decimal_terminates_witness:
  "(0::int) < 1 \<and> (1::int) < 2 ^ 53 \<and> (-1074::int) \<le> -1 \<and> (-1::int) \<le> 971 \<and>
   (\<exists>n K s. shortest_decimal (digit_budget (of_int 1 * ipow 2 (-1))) (of_int 1 * ipow 2 (-1)) 1 = Some (n, K, s) \<and>
      round_binary64 (scaled_value n K s) = Fin (of_int 1 * ipow 2 (-1)))"
  using shortest_decimal_terminates [of 1 "-1"] by simp

end
