(* ===== verification/JsValue.thy ===== *)
theory JsValue
  imports NumberToString
begin

section \<open>JavaScript values reachable from a JSON response\<close>

text \<open>
  The response body the fetcher hands to the program is the result of \<open>JSON.parse\<close>:
  \<open>null\<close>, Booleans, Numbers, strings, arrays and plain objects (own data properties
  only, keys in the object's own-property order), plus \<open>undefined\<close>, which the
  program itself writes (\<open>|| undefined\<close>) and which a missing property reads as.

  The operations are the abstract operations of ECMA-262 the program triggers:
  ToBoolean (7.1.2) for \<open>||\<close>, property access \<open>v.key\<close> (13.3.2, which throws a
  TypeError on \<open>null\<close> and \<open>undefined\<close>), ToString (7.1.17) and ToNumber (7.1.4)
  with ToPrimitive/OrdinaryToPrimitive (7.1.1) for arrays and objects, and
  CopyDataProperties with CreateDataProperty for the object literal
  \<open>{...route, YMileageCost: ...}\<close>. A plain object's own \<open>valueOf\<close> or
  \<open>toString\<close> from JSON is never callable, so OrdinaryToPrimitive skips it; an object
  with an own \<open>toString\<close> therefore has no primitive value and ToPrimitive throws, and
  every other plain object converts through \<open>Object.prototype.toString\<close> to
  \<open>''[object Object]''\<close>. Arrays convert through \<open>Array.prototype.join\<close>.

  Property access looks up own properties. The keys the program reads
  (\<open>ParsedDate\<close>, \<open>YMileageCost\<close>, \<open>WMileageCost\<close>, \<open>JMileageCost\<close>,
  \<open>FMileageCost\<close>) are defined on none of the built-in prototypes, so for them the
  prototype chain contributes nothing.
\<close>

datatype jsval =
    JUndefined
  | JNull
  | JBool bool
  | JNumber jsnum
  | JString string
  | JArray "jsval list"
  | JObject "(string \<times> jsval) list"

datatype fetch_failure = NetworkError | StatusCodeError nat | DomainNotAllowed

text \<open>The exceptions a formula can end with: a TypeError thrown by the program's own
  code, a SyntaxError thrown when the host parses a response body that is not JSON, and
  the fetcher's failures.\<close>

datatype js_error = TypeError | SyntaxError | FetchFailed fetch_failure

type_synonym 'a js_result = "js_error + 'a"

subsection \<open>ToBoolean and the \<open>||\<close> operator\<close>

definition num_truthy :: "jsnum \<Rightarrow> bool" where
  "num_truthy n \<longleftrightarrow> n \<noteq> NaN \<and> n \<noteq> Fin 0"

fun to_boolean :: "jsval \<Rightarrow> bool" where
  "to_boolean JUndefined = False"
| "to_boolean JNull = False"
| "to_boolean (JBool b) = b"
| "to_boolean (JNumber n) = num_truthy n"
| "to_boolean (JString s) = (s \<noteq> [])"
| "to_boolean (JArray vs) = True"
| "to_boolean (JObject ps) = True"

text \<open>\<open>a || b\<close> (13.13): the left value if it is truthy, else the right one. The right
  operands of the program are literals, whose evaluation has no effect.\<close>

definition js_or :: "jsval \<Rightarrow> jsval \<Rightarrow> jsval" where
  "js_or a b = (if to_boolean a then a else b)"

subsection \<open>Property access\<close>

text \<open>A canonical array index: the decimal digits of some \<open>i < 2\<^sup>3\<^sup>2 - 1\<close>.\<close>

definition array_index :: "string \<Rightarrow> nat option" where
  "array_index k =
     (if k \<noteq> [] \<and> list_all is_digit k \<and> nat_digits (dec_value k) = k \<and> dec_value k < 2 ^ 32 - 1
      then Some (dec_value k) else None)"

fun get_prop :: "jsval \<Rightarrow> string \<Rightarrow> jsval js_result" where
  "get_prop JUndefined k = Inl TypeError"
| "get_prop JNull k = Inl TypeError"
| "get_prop (JObject ps) k = Inr (case map_of ps k of Some v \<Rightarrow> v | None \<Rightarrow> JUndefined)"
| "get_prop (JArray vs) k =
     Inr (if k = ''length'' then JNumber (Fin (of_nat (length vs)))
          else (case array_index k of
                  Some i \<Rightarrow> if i < length vs then vs ! i else JUndefined
                | None \<Rightarrow> JUndefined))"
| "get_prop (JString s) k =
     Inr (if k = ''length'' then JNumber (Fin (of_nat (length s)))
          else (case array_index k of
                  Some i \<Rightarrow> if i < length s then JString [s ! i] else JUndefined
                | None \<Rightarrow> JUndefined))"
| "get_prop (JBool b) k = Inr JUndefined"
| "get_prop (JNumber n) k = Inr JUndefined"

subsection \<open>ToString and ToNumber\<close>

fun join_with :: "string \<Rightarrow> string list \<Rightarrow> string" where
  "join_with sep [] = []"
| "join_with sep [s] = s"
| "join_with sep (s # ss) = s @ sep @ join_with sep ss"

text \<open>OrdinaryToPrimitive of a plain object parsed from JSON.\<close>

definition object_to_primitive :: "(string \<times> jsval) list \<Rightarrow> string js_result" where
  "object_to_primitive ps =
     (if ''toString'' \<in> set (map fst ps) then Inl TypeError else Inr ''[object Object]'')"

text \<open>ToString; an array is \<open>Array.prototype.join\<close> with \<open>,\<close>, where \<open>null\<close> and
  \<open>undefined\<close> elements are the empty string.\<close>

fun to_js_string :: "jsval \<Rightarrow> string js_result"
  and join_elements :: "jsval list \<Rightarrow> string list js_result" where
  "to_js_string JUndefined = Inr ''undefined''"
| "to_js_string JNull = Inr ''null''"
| "to_js_string (JBool b) = Inr (if b then ''true'' else ''false'')"
| "to_js_string (JNumber n) = Inr (number_to_string n)"
| "to_js_string (JString s) = Inr s"
| "to_js_string (JArray vs) = map_sum id (join_with '','') (join_elements vs)"
| "to_js_string (JObject ps) = object_to_primitive ps"
| "join_elements [] = Inr []"
| "join_elements (v # vs) =
     (case (if v = JUndefined \<or> v = JNull then Inr [] else to_js_string v) of
        Inl e \<Rightarrow> Inl e
      | Inr s \<Rightarrow> map_sum id (Cons s) (join_elements vs))"

text \<open>ToNumber; arrays and objects go through ToPrimitive with hint Number, whose
  \<open>valueOf\<close> returns the object itself, so their \<open>toString\<close> decides.\<close>

fun to_number :: "jsval \<Rightarrow> jsnum js_result" where
  "to_number JUndefined = Inr NaN"
| "to_number JNull = Inr (Fin 0)"
| "to_number (JBool b) = Inr (Fin (if b then 1 else 0))"
| "to_number (JNumber n) = Inr n"
| "to_number (JString s) = Inr (string_to_number s)"
| "to_number (JArray vs) = map_sum id string_to_number (to_js_string (JArray vs))"
| "to_number (JObject ps) = map_sum id string_to_number (object_to_primitive ps)"

subsection \<open>Object spread and object literals\<close>

text \<open>The own enumerable string-keyed properties that \<open>{...v}\<close> copies
  (CopyDataProperties): none for \<open>null\<close>, \<open>undefined\<close>, Booleans and Numbers, the
  indexed code units of a string, the indexed elements of an array, and an object's own
  properties.\<close>

fun own_enumerable :: "jsval \<Rightarrow> (string \<times> jsval) list" where
  "own_enumerable (JString s) = map (\<lambda>i. (nat_digits i, JString [s ! i])) [0..<length s]"
| "own_enumerable (JArray vs) = map (\<lambda>i. (nat_digits i, vs ! i)) [0..<length vs]"
| "own_enumerable (JObject ps) = ps"
| "own_enumerable _ = []"

text \<open>CreateDataProperty on an ordinary object: an existing key keeps its position and
  takes the new value; a new key is appended.\<close>

fun set_prop :: "(string \<times> jsval) list \<Rightarrow> string \<Rightarrow> jsval \<Rightarrow> (string \<times> jsval) list" where
  "set_prop [] k v = [(k, v)]"
| "set_prop ((k', v') # ps) k v = (if k' = k then (k, v) # ps else (k', v') # set_prop ps k v)"

text \<open>A value whose ToPrimitive throws: an object with an own \<open>toString\<close>, or an
  array with such a value among its elements (at any depth).\<close>

fun poisoned :: "jsval \<Rightarrow> bool" where
  "poisoned (JObject ps) \<longleftrightarrow> ''toString'' \<in> set (map fst ps)"
| "poisoned (JArray vs) \<longleftrightarrow> (\<exists>v \<in> set vs. poisoned v)"
| "poisoned _ \<longleftrightarrow> False"

subsection \<open>Facts\<close>

lemma map_of_set_prop [simp]: "map_of (set_prop ps k v) = (map_of ps)(k \<mapsto> v)"
  by (induction ps k v rule: set_prop.induct) (auto simp: fun_eq_iff)

lemma keys_set_prop:
  "map fst (set_prop ps k v) = (if k \<in> set (map fst ps) then map fst ps else map fst ps @ [k])"
  by (induction ps k v rule: set_prop.induct) auto

lemma distinct_set_prop:
  "distinct (map fst ps) \<Longrightarrow> distinct (map fst (set_prop ps k v))"
  by (simp add: keys_set_prop)

lemma get_prop_error: "(\<exists>e. get_prop v k = Inl e) \<longleftrightarrow> v = JUndefined \<or> v = JNull"
  by (cases v) auto

lemma to_js_string_error:
  shows "to_js_string v = Inl e \<Longrightarrow> e = TypeError \<and> poisoned v"
    and "join_elements vs = Inl e \<Longrightarrow> e = TypeError \<and> (\<exists>v \<in> set vs. poisoned v)"
  by (induction v and vs arbitrary: e and e rule: to_js_string_join_elements.induct)
    (auto simp: object_to_primitive_def split: if_splits sum.splits)

lemma to_js_string_ok:
  shows "\<not> poisoned v \<Longrightarrow> \<exists>s. to_js_string v = Inr s"
    and "\<forall>v \<in> set vs. \<not> poisoned v \<Longrightarrow> \<exists>ss. join_elements vs = Inr ss"
  by (induction v and vs rule: to_js_string_join_elements.induct)
    (fastforce simp: object_to_primitive_def split: sum.splits if_splits)+


lemma to_js_string_poisoned:
  shows "poisoned v \<Longrightarrow> \<exists>e. to_js_string v = Inl e"
    and "\<exists>v \<in> set vs. poisoned v \<Longrightarrow> \<exists>e. join_elements vs = Inl e"
  by (induction v and vs rule: to_js_string_join_elements.induct)
    (fastforce simp: object_to_primitive_def split: sum.splits if_splits)+

text \<open>
  \<open>Number(v)\<close> throws exactly for the values whose ToPrimitive throws: an object
  with an own \<open>toString\<close> key, or an array holding such an object at any depth; for every
  other JSON value it returns a Number.
\<close>

theorem to_number_error_iff: "(\<exists>e. to_number v = Inl e) \<longleftrightarrow> poisoned v"
proof (cases v)
  case (JArray vs)
  then show ?thesis
    using to_js_string_error(1) [of v] to_js_string_poisoned(1) [of v]
    by (cases "to_js_string v") auto
next
  case (JObject ps)
  then show ?thesis by (simp add: object_to_primitive_def)
qed simp_all

lemma to_number_error_TypeError: "to_number v = Inl e \<Longrightarrow> e = TypeError"
  using to_js_string_error(1) [of v] by (cases v) (auto simp: object_to_primitive_def split: if_splits)

end
