(* ===== verification/Fetcher.thy ===== *)
theory Fetcher
  imports JsValue
begin

section \<open>The host's fetcher and URL helpers\<close>

text \<open>
  Both sync formulas call \<open>context.fetcher.fetch({url, method: 'GET'})\<close>, a capability
  of the Coda host: it performs the HTTP request, throws on a transport failure or a
  non-2xx status (\<open>StatusCodeError\<close>), and otherwise returns the response whose \<open>body\<close>
  is the parsed JSON. The model takes the fetcher as a parameter: a function from the
  request to an error or a response. Nothing is assumed about it, so every theorem
  holds for every fetcher; HostFetch defines the host's fetcher over HTTP and composes it
  with the pack.

  \<open>coda.withQueryParams(url, params)\<close> belongs to the Coda SDK, not to this repository;
  following the spec (section 6) it appends \<open>?key=value\<close> pairs, each side encoded with
  \<open>encodeURIComponent\<close> (ECMA-262 19.2.6.5): unreserved characters stay, every other
  code unit is written as the percent-escaped bytes of its UTF-8 encoding.
\<close>

record fetch_request =
  req_url :: string
  req_method :: string

record fetch_response =
  resp_status :: nat
  resp_body :: jsval

type_synonym fetcher = "fetch_request \<Rightarrow> fetch_response js_result"

definition uri_unreserved :: "char \<Rightarrow> bool" where
  "uri_unreserved c \<longleftrightarrow>
     (let n = of_char c :: nat
      in (65 \<le> n \<and> n \<le> 90) \<or> (97 \<le> n \<and> n \<le> 122) \<or> (48 \<le> n \<and> n \<le> 57) \<or>
         c \<in> set ''-_.!~*'()'')"

definition hex_upper :: "nat \<Rightarrow> char" where
  "hex_upper d = (if d < 10 then char_of (48 + d) else char_of (55 + d))"

definition percent_byte :: "nat \<Rightarrow> string" where
  "percent_byte b = [CHR ''%'', hex_upper (b div 16), hex_upper (b mod 16)]"

text \<open>UTF-8 of a code unit below \<open>U+0100\<close>: one byte below \<open>U+0080\<close>, two bytes above.\<close>

definition utf8_bytes :: "char \<Rightarrow> nat list" where
  "utf8_bytes c =
     (let n = of_char c :: nat in if n < 128 then [n] else [192 + n div 64, 128 + n mod 64])"

definition encode_uri_component :: "string \<Rightarrow> string" where
  "encode_uri_component s =
     concat (map (\<lambda>c. if uri_unreserved c then [c] else concat (map percent_byte (utf8_bytes c))) s)"

definition with_query_params :: "string \<Rightarrow> (string \<times> string) list \<Rightarrow> string" where
  "with_query_params url params =
     (if params = [] then url
      else url @ ''?'' @
             join_with ''&'' (map (\<lambda>(k, v). encode_uri_component k @ ''='' @ encode_uri_component v) params))"

subsection \<open>Decoding at the receiving end\<close>

text \<open>The server reading the query undoes \<open>encodeURIComponent\<close>
  (\<open>decodeURIComponent\<close>, ECMA-262 19.2.6.3): \<open>%XY\<close> triples become bytes, other
  characters their own code, and the bytes are read as UTF-8. Only the one- and two-byte
  sequences are decoded, which covers every code unit the model's strings hold.\<close>

definition hex_value :: "char \<Rightarrow> nat option" where
  "hex_value c =
     (let n = of_char c :: nat
      in if 48 \<le> n \<and> n \<le> 57 then Some (n - 48)
         else if 65 \<le> n \<and> n \<le> 70 then Some (n - 55)
         else if 97 \<le> n \<and> n \<le> 102 then Some (n - 87)
         else None)"

function percent_decode :: "string \<Rightarrow> nat list option" where
  "percent_decode [] = Some []"
| "percent_decode (c # s) =
     (if c = CHR ''%'' then
        (case s of
           a # b # r \<Rightarrow>
             (case (hex_value a, hex_value b) of
                (Some x, Some y) \<Rightarrow> map_option (Cons (16 * x + y)) (percent_decode r)
              | _ \<Rightarrow> None)
         | _ \<Rightarrow> None)
      else map_option (Cons (of_char c)) (percent_decode s))"
  by pat_completeness auto
termination
  by (relation "measure length") auto

fun utf8_decode :: "nat list \<Rightarrow> string option" where
  "utf8_decode [] = Some []"
| "utf8_decode (b # bs) =
     (if b < 128 then map_option (Cons (char_of b)) (utf8_decode bs)
      else if 192 \<le> b \<and> b < 196 then
        (case bs of
           b2 # bs' \<Rightarrow>
             if 128 \<le> b2 \<and> b2 < 192 then map_option (Cons (char_of ((b - 192) * 64 + (b2 - 128)))) (utf8_decode bs')
             else None
         | [] \<Rightarrow> None)
      else None)"

definition decode_uri_component :: "string \<Rightarrow> string option" where
  "decode_uri_component s = Option.bind (percent_decode s) utf8_decode"

subsection \<open>Facts\<close>

lemma hex_value_hex_upper [simp]: "d < 16 \<Longrightarrow> hex_value (hex_upper d) = Some d"
  by (auto simp: hex_value_def hex_upper_def Let_def)

lemma hex_upper_not_percent [simp]: "d < 16 \<Longrightarrow> hex_upper d \<noteq> CHR ''%''"
proof
  assume "d < 16" "hex_upper d = CHR ''%''"
  then have "of_char (hex_upper d) = (37::nat)" by simp
  with \<open>d < 16\<close> show False by (auto simp: hex_upper_def of_char_of split: if_splits)
qed

lemma percent_decode_percent_byte:
  "b < 256 \<Longrightarrow> percent_decode (percent_byte b @ s) = map_option (Cons b) (percent_decode s)"
  by (simp add: percent_byte_def)

lemma uri_unreserved_ascii: "uri_unreserved c \<Longrightarrow> of_char c < (128::nat)"
  by (auto simp: uri_unreserved_def Let_def)

lemma uri_unreserved_not_percent: "uri_unreserved c \<Longrightarrow> c \<noteq> CHR ''%''"
  by (auto simp: uri_unreserved_def)

lemma of_char_div_64: "of_char c div 64 < (4::nat)"
  by (rule less_mult_imp_div_less) (use nat_of_char_less_256 [of c] in simp)

lemma utf8_bytes_bound: "b \<in> set (utf8_bytes c) \<Longrightarrow> b < 256"
  using nat_of_char_less_256 [of c] of_char_div_64 [of c]
  by (auto simp: utf8_bytes_def Let_def split: if_splits)

lemma percent_decode_encode:
  "percent_decode (encode_uri_component s) = Some (concat (map utf8_bytes s))"
proof (induction s)
  case (Cons c s)
  show ?case
  proof (cases "uri_unreserved c")
    case True
    then show ?thesis
      using Cons uri_unreserved_ascii [OF True] uri_unreserved_not_percent [OF True]
      by (simp add: encode_uri_component_def utf8_bytes_def)
  next
    case False
    have "percent_decode (concat (map percent_byte bs) @ t) = map_option ((@) bs) (percent_decode t)"
      if "\<forall>b \<in> set bs. b < 256" for bs t
      using that by (cases "percent_decode t"; induction bs) (auto simp: percent_decode_percent_byte)
    then show ?thesis
      using Cons False utf8_bytes_bound [of _ c]
      by (simp add: encode_uri_component_def)
  qed
qed (simp add: encode_uri_component_def)

lemma utf8_decode_bytes: "utf8_decode (concat (map utf8_bytes s)) = Some s"
proof (induction s)
  case (Cons c s)
  show ?case using Cons of_char_div_64 [of c]
    by (auto simp: utf8_bytes_def Let_def)
qed simp

text \<open>Round trip of the query encoding: decoding \<open>encodeURIComponent(s)\<close> gives back
  \<open>s\<close>, for every string.\<close>

lemma decode_encode_uri_component: "decode_uri_component (encode_uri_component s) = Some s"
  by (simp add: decode_uri_component_def percent_decode_encode utf8_decode_bytes)

lemma hex_upper_not_separator: "d < 16 \<Longrightarrow> hex_upper d \<notin> set ''&#=''"
proof
  assume "d < 16" "hex_upper d \<in> set ''&#=''"
  then have "of_char (hex_upper d) \<in> {38, 35, 61::nat}" by auto
  with \<open>d < 16\<close> show False by (auto simp: hex_upper_def of_char_of split: if_splits)
qed

lemma encode_uri_component_no_separator:
  "c \<in> set (encode_uri_component s) \<Longrightarrow> c \<notin> set ''&#=''"
proof -
  have unres: "uri_unreserved c \<Longrightarrow> c \<notin> set ''&#=''" for c
    by (auto simp: uri_unreserved_def)
  have pb: "b < 256 \<Longrightarrow> c \<in> set (percent_byte b) \<Longrightarrow> c \<notin> set ''&#=''" for c b
    using hex_upper_not_separator [of "b div 16"] hex_upper_not_separator [of "b mod 16"]
    by (auto simp: percent_byte_def less_mult_imp_div_less)
  assume "c \<in> set (encode_uri_component s)"
  then obtain x where x: "x \<in> set s"
    and cx: "c \<in> set (if uri_unreserved x then [x] else concat (map percent_byte (utf8_bytes x)))"
    unfolding encode_uri_component_def set_concat set_map by blast
  show ?thesis
  proof (cases "uri_unreserved x")
    case True
    then show ?thesis using cx unres by simp
  next
    case False
    then obtain b where "b \<in> set (utf8_bytes x)" "c \<in> set (percent_byte b)" using cx by auto
    then show ?thesis using pb utf8_bytes_bound by blast
  qed
qed

lemma encode_uri_component_unreserved:
  "list_all uri_unreserved s \<Longrightarrow> encode_uri_component s = s"
  by (induction s) (simp_all add: encode_uri_component_def)

end
