(* ===== verification/Routes.thy ===== *)
theory Routes
  imports Fetcher
begin

section \<open>The Routes sync table\<close>

text \<open>
  \<open>src/pack.ts\<close>, lines 24 to 38: the \<open>Routes\<close> formula takes no parameters, fetches
  \<open>https://seats.aero/api/routes\<close> with GET and returns the response body unchanged as
  the table's rows; a fetch failure propagates.
\<close>

definition routes_url :: string where
  "routes_url = ''https://seats.aero/api/routes''"

definition routes_request :: fetch_request where
  "routes_request = \<lparr>req_url = routes_url, req_method = ''GET''\<rparr>"

definition routes_execute :: "fetcher \<Rightarrow> jsval js_result" where
  "routes_execute fetch = bind_res (fetch routes_request) (\<lambda>resp. Inr (resp_body resp))"

text \<open>
  C16. The Routes formula's contract (spec, section 4.1): it issues one GET of the fixed
  routes resource, returns the response body unchanged when the fetch succeeds, and fails
  with exactly the fetcher's error otherwise.
\<close>

theorem routes_execute_contract:
  "req_url routes_request = ''https://seats.aero/api/routes'' \<and> req_method routes_request = ''GET'' \<and>
   (routes_execute fetch = Inr b \<longleftrightarrow> (\<exists>resp. fetch routes_request = Inr resp \<and> resp_body resp = b)) \<and>
   (routes_execute fetch = Inl e \<longleftrightarrow> fetch routes_request = Inl e)"
  by (cases "fetch routes_request") (auto simp: routes_execute_def routes_request_def routes_url_def)

end
