(* ===== verification/DateTime.thy ===== *)
theory DateTime
  imports JsValue
begin

section \<open>Dates: time values, the Date Time String Format and \<open>new Date(v)\<close>\<close>

text \<open>
  A Date holds a time value (ECMA-262 21.4.1): milliseconds since 1970-01-01T00:00Z, an
  integer of absolute value at most \<open>8.64 \<cdot> 10\<^sup>1\<^sup>5\<close>, or NaN for an invalid Date.
  The model writes a time value as \<open>int option\<close>, \<open>None\<close> being NaN.

  \<open>new Date(v)\<close> with one argument (21.4.2.1) converts \<open>v\<close> with ToPrimitive; a
  string is parsed as by \<open>Date.parse\<close>, anything else goes through ToNumber; the result is
  clipped with TimeClip (21.4.1.31). The parser is the Date Time String Format of 21.4.1.32:
  \<open>YYYY\<close>, \<open>YYYY-MM\<close> or \<open>YYYY-MM-DD\<close> (with \<open>\<plusminus>YYYYYY\<close> expanded years, \<open>-000000\<close>
  excluded), optionally followed by \<open>THH:mm\<close>, \<open>THH:mm:ss\<close> or \<open>THH:mm:ss.sss\<close> and
  then by \<open>Z\<close> or \<open>\<plusminus>HH:mm\<close>. Date-only forms are UTC; a date-time form without an offset
  is local time, converted with the host's local time zone offset \<open>tza\<close> (LocalTZA, in
  milliseconds, taken as fixed). Hours run to 24 only for \<open>24:00\<close> (all other fields
  zero); day-of-month values 01 to 31 are accepted and MakeDay carries a day beyond the
  month's end into the next month, as V8 does. Strings outside the format are
  implementation-defined in ECMA-262; the model gives NaN for them, so it does not cover
  the extra formats of V8's legacy parser.
\<close>

type_synonym time_value = "int option"

subsection \<open>Day and time arithmetic (21.4.1)\<close>

definition ms_per_day :: int where
  "ms_per_day = 86400000"

definition day_from_year :: "int \<Rightarrow> int" where
  "day_from_year y = 365 * (y - 1970) + (y - 1969) div 4 - (y - 1901) div 100 + (y - 1601) div 400"

definition leap_year :: "int \<Rightarrow> bool" where
  "leap_year y \<longleftrightarrow> (y mod 4 = 0 \<and> y mod 100 \<noteq> 0) \<or> y mod 400 = 0"

definition month_lengths :: "int \<Rightarrow> int list" where
  "month_lengths y = [31, if leap_year y then 29 else 28, 31, 30, 31, 30, 31, 31, 30, 31, 30, 31]"

definition make_day :: "int \<Rightarrow> int \<Rightarrow> int \<Rightarrow> int" where
  "make_day y m d =
     (let ym = y + m div 12; mn = nat (m mod 12)
      in day_from_year ym + sum_list (take mn (month_lengths ym)) + d - 1)"

definition make_time :: "int \<Rightarrow> int \<Rightarrow> int \<Rightarrow> int \<Rightarrow> int" where
  "make_time h mi s ms = h * 3600000 + mi * 60000 + s * 1000 + ms"

definition make_date :: "int \<Rightarrow> int \<Rightarrow> int" where
  "make_date day time = day * ms_per_day + time"

definition time_clip_int :: "int \<Rightarrow> time_value" where
  "time_clip_int t = (if \<bar>t\<bar> \<le> 8640000000000000 then Some t else None)"

text \<open>TimeClip of a Number: NaN and the infinities give NaN, a finite value out of range
  gives NaN, anything else is truncated towards zero (ToIntegerOrInfinity).\<close>

fun time_clip :: "jsnum \<Rightarrow> time_value" where
  "time_clip (Fin x) =
     (if \<bar>x\<bar> \<le> 8640000000000000 then Some (if 0 \<le> x then \<lfloor>x\<rfloor> else - \<lfloor>- x\<rfloor>) else None)"
| "time_clip _ = None"

subsection \<open>The Date Time String Format (21.4.1.32)\<close>

definition digits_n :: "nat \<Rightarrow> string \<Rightarrow> (nat \<times> string) option" where
  "digits_n n s =
     (if n \<le> length s \<and> list_all is_digit (take n s) then Some (dec_value (take n s), drop n s)
      else None)"

definition parse_year :: "string \<Rightarrow> (int \<times> string) option" where
  "parse_year s =
     (case s of
        [] \<Rightarrow> None
      | c # r \<Rightarrow>
          if c = CHR ''+'' \<or> c = CHR ''-'' then
            (case digits_n 6 r of
               None \<Rightarrow> None
             | Some (y, r') \<Rightarrow>
                 if c = CHR ''-'' \<and> y = 0 then None
                 else Some (if c = CHR ''-'' then - int y else int y, r'))
          else map_option (\<lambda>(y, r'). (int y, r')) (digits_n 4 s))"

text \<open>A separator character followed by exactly two digits.\<close>

definition sep2 :: "char \<Rightarrow> string \<Rightarrow> (nat \<times> string) option" where
  "sep2 c s = (case s of [] \<Rightarrow> None | c' # r \<Rightarrow> if c' = c then digits_n 2 r else None)"

text \<open>\<open>-MM\<close> and \<open>-DD\<close> after the year; a missing month or day is 1.\<close>

definition parse_month_day :: "string \<Rightarrow> (nat \<times> nat \<times> string) option" where
  "parse_month_day s =
     (if s \<noteq> [] \<and> hd s = CHR ''-'' then
        (case sep2 CHR ''-'' s of
           None \<Rightarrow> None
         | Some (mo, r) \<Rightarrow>
             if r \<noteq> [] \<and> hd r = CHR ''-'' then
               (case sep2 CHR ''-'' r of None \<Rightarrow> None | Some (d, r') \<Rightarrow> Some (mo, d, r'))
             else Some (mo, 1, r))
      else Some (1, 1, s))"

text \<open>\<open>:ss\<close> and \<open>.sss\<close> after \<open>HH:mm\<close>; missing ones are 0.\<close>

definition parse_seconds :: "string \<Rightarrow> (nat \<times> nat \<times> string) option" where
  "parse_seconds s =
     (if s \<noteq> [] \<and> hd s = CHR '':'' then
        (case sep2 CHR '':'' s of
           None \<Rightarrow> None
         | Some (sec, r) \<Rightarrow>
             if r \<noteq> [] \<and> hd r = CHR ''.'' then
               (case digits_n 3 (tl r) of None \<Rightarrow> None | Some (ms, r') \<Rightarrow> Some (sec, ms, r'))
             else Some (sec, 0, r))
      else Some (0, 0, s))"

text \<open>The UTC offset: \<open>Z\<close> or \<open>\<plusminus>HH:mm\<close> (in milliseconds, to be subtracted), or
  nothing (local time).\<close>

datatype utc_offset = LocalTime | Offset int

definition parse_offset :: "string \<Rightarrow> utc_offset option" where
  "parse_offset s =
     (case s of
        [] \<Rightarrow> Some LocalTime
      | c # r \<Rightarrow>
          if c = CHR ''Z'' then (if r = [] then Some (Offset 0) else None)
          else if c = CHR ''+'' \<or> c = CHR ''-'' then
            (case digits_n 2 r of
               None \<Rightarrow> None
             | Some (hh, r1) \<Rightarrow>
                 (case sep2 CHR '':'' r1 of
                    None \<Rightarrow> None
                  | Some (mm, r2) \<Rightarrow>
                      if r2 = [] \<and> hh \<le> 23 \<and> mm \<le> 59 then
                        Some (Offset ((if c = CHR ''-'' then -1 else 1) * (int hh * 60 + int mm) * 60000))
                      else None))
          else None)"

definition valid_time :: "nat \<Rightarrow> nat \<Rightarrow> nat \<Rightarrow> nat \<Rightarrow> bool" where
  "valid_time h mi s ms \<longleftrightarrow> (h \<le> 23 \<and> mi \<le> 59 \<and> s \<le> 59) \<or> (h = 24 \<and> mi = 0 \<and> s = 0 \<and> ms = 0)"

text \<open>The time part after the date: nothing (UTC midnight) or \<open>T\<close>, the time and an
  optional offset. The result is the time of day in milliseconds and the offset.\<close>

definition parse_time_part :: "string \<Rightarrow> (int \<times> utc_offset) option" where
  "parse_time_part s =
     (case s of
        [] \<Rightarrow> Some (0, Offset 0)
      | c # r \<Rightarrow>
          if c \<noteq> CHR ''T'' then None
          else
            (case digits_n 2 r of
               None \<Rightarrow> None
             | Some (h, r1) \<Rightarrow>
                 (case sep2 CHR '':'' r1 of
                    None \<Rightarrow> None
                  | Some (mi, r2) \<Rightarrow>
                      (case parse_seconds r2 of
                         None \<Rightarrow> None
                       | Some (sec, ms, r3) \<Rightarrow>
                           if \<not> valid_time h mi sec ms then None
                           else map_option (\<lambda>off. (make_time (int h) (int mi) (int sec) (int ms), off))
                                  (parse_offset r3)))))"

definition parse_date_string :: "int \<Rightarrow> string \<Rightarrow> time_value" where
  "parse_date_string tza s =
     (case parse_year s of
        None \<Rightarrow> None
      | Some (y, r1) \<Rightarrow>
          (case parse_month_day r1 of
             None \<Rightarrow> None
           | Some (mo, d, r2) \<Rightarrow>
               if mo < 1 \<or> 12 < mo \<or> d < 1 \<or> 31 < d then None
               else
                 (case parse_time_part r2 of
                    None \<Rightarrow> None
                  | Some (t, off) \<Rightarrow>
                      (let lt = make_date (make_day y (int mo - 1) (int d)) t
                       in time_clip_int
                            (case off of LocalTime \<Rightarrow> lt - tza | Offset ofs \<Rightarrow> lt - ofs)))))"

subsection \<open>The Date constructor and comparison\<close>

fun new_date :: "int \<Rightarrow> jsval \<Rightarrow> time_value js_result" where
  "new_date tza (JString s) = Inr (parse_date_string tza s)"
| "new_date tza (JNumber n) = Inr (time_clip n)"
| "new_date tza JUndefined = Inr None"
| "new_date tza JNull = Inr (Some 0)"
| "new_date tza (JBool b) = Inr (Some (if b then 1 else 0))"
| "new_date tza (JArray vs) = map_sum id (parse_date_string tza) (to_js_string (JArray vs))"
| "new_date tza (JObject ps) = map_sum id (parse_date_string tza) (object_to_primitive ps)"

text \<open>\<open>a >= b\<close> and \<open>a <= b\<close> on two Dates compare their time values (ToPrimitive with
  hint Number calls \<open>valueOf\<close>); a comparison with NaN is false. A missing array
  element \<open>dates[i]\<close> is \<open>undefined\<close>, whose ToNumber is NaN.\<close>

definition tv_ge :: "time_value \<Rightarrow> time_value \<Rightarrow> bool" where
  "tv_ge a b = (case (a, b) of (Some x, Some y) \<Rightarrow> y \<le> x | _ \<Rightarrow> False)"

definition tv_le :: "time_value \<Rightarrow> time_value \<Rightarrow> bool" where
  "tv_le a b = (case (a, b) of (Some x, Some y) \<Rightarrow> x \<le> y | _ \<Rightarrow> False)"

definition tv_index :: "time_value list \<Rightarrow> nat \<Rightarrow> time_value" where
  "tv_index ds i = (if i < length ds then ds ! i else None)"

declare parse_date_string_def [js_eval] parse_year_def [js_eval] digits_n_def [js_eval]
  sep2_def [js_eval] parse_month_day_def [js_eval] parse_time_part_def [js_eval]
  parse_seconds_def [js_eval] parse_offset_def [js_eval] valid_time_def [js_eval]
  make_date_def [js_eval] make_day_def [js_eval] make_time_def [js_eval]
  day_from_year_def [js_eval] month_lengths_def [js_eval] leap_year_def [js_eval]
  ms_per_day_def [js_eval] time_clip_int_def [js_eval] tv_ge_def [js_eval] tv_le_def [js_eval]
  tv_index_def [js_eval]

end
