(* ===== verification/Calendar.thy ===== *)
theory Calendar
  imports DateTime "HOL-Library.Product_Lexorder"
begin

text \<open>
  Calendar facts behind the date filter. Over valid dates (a month of 1 to 12 and a day
  within the month's length) the day count of ECMA-262 (\<open>MakeDay\<close>) is strictly
  increasing in the lexicographic order of (year, month, day), so comparing the time values
  of two calendar dates at the same time of day compares the dates. The ISO form
  \<open>YYYY-MM-DD\<close> of a date (years 0 to 9999, fields zero-padded) parses to its midnight
  UTC. \<open>days_in_year\<close>, \<open>valid_ymd\<close>, \<open>day_of_year\<close>, \<open>iso_date\<close> and
  \<open>utc_midnight\<close> are the calendar notions of the spec (dates of the range and of the rows)
  against which the filter of \<open>src/pack.ts\<close> is judged; they translate no code.
\<close>

definition days_in_year :: "int \<Rightarrow> int" where
  "days_in_year y = (if leap_year y then 366 else 365)"

definition valid_ymd :: "int \<Rightarrow> nat \<Rightarrow> nat \<Rightarrow> bool" where
  "valid_ymd y m d \<longleftrightarrow> 1 \<le> m \<and> m \<le> 12 \<and> 1 \<le> d \<and> int d \<le> month_lengths y ! (m - 1)"

definition day_of_year :: "int \<Rightarrow> nat \<Rightarrow> nat \<Rightarrow> int" where
  "day_of_year y m d = sum_list (take (m - 1) (month_lengths y)) + int d - 1"

definition pad_digits :: "nat \<Rightarrow> nat \<Rightarrow> string" where
  "pad_digits w n = replicate (w - length (nat_digits n)) CHR ''0'' @ nat_digits n"

definition iso_date :: "nat \<Rightarrow> nat \<Rightarrow> nat \<Rightarrow> string" where
  "iso_date y m d = pad_digits 4 y @ ''-'' @ pad_digits 2 m @ ''-'' @ pad_digits 2 d"

definition utc_midnight :: "int \<Rightarrow> nat \<Rightarrow> nat \<Rightarrow> int" where
  "utc_midnight y m d = make_date (make_day y (int m - 1) (int d)) 0"

lemma div_succ_int:
  fixes a n :: int
  assumes "1 < n"
  shows "(a + 1) div n = a div n + (if (a + 1) mod n = 0 then 1 else 0)"
proof -
  have "(a + 1) div n = a div n + 1 div n + (a mod n + 1 mod n) div n"
    by (rule div_add1_eq)
  moreover have "1 div n = 0" "1 mod n = 1" using assms by simp_all
  moreover have "(a mod n + 1) div n = (if (a + 1) mod n = 0 then 1 else 0)"
  proof -
    have b: "0 \<le> a mod n" "a mod n < n" using assms by simp_all
    have "(a + 1) mod n = (a mod n + 1) mod n" by (simp add: mod_add_left_eq)
    with b show ?thesis
      by (cases "a mod n + 1 = n") (auto simp: div_pos_pos_trivial mod_pos_pos_trivial)
  qed
  ultimately show ?thesis by simp
qed

lemma mod_shift_int: "((y::int) + c * n) mod n = y mod n"
  by (rule mod_mult_self1)

lemma mod_400_100: "(y::int) mod 400 = 0 \<Longrightarrow> y mod 100 = 0"
  by (auto simp: mod_eq_0_iff_dvd elim!: dvdE)

lemma mod_100_4: "(y::int) mod 100 = 0 \<Longrightarrow> y mod 4 = 0"
  by (auto simp: mod_eq_0_iff_dvd elim!: dvdE)

lemma day_from_year_succ: "day_from_year (y + 1) = day_from_year y + days_in_year y"
proof -
  have "y - 1968 = y + (-492) * 4" "y - 1900 = y + (-19) * 100" "y - 1600 = y + (-4) * 400"
    by simp_all
  then have m: "(y - 1968) mod 4 = y mod 4" "(y - 1900) mod 100 = y mod 100"
      "(y - 1600) mod 400 = y mod 400"
    by (simp_all only: mod_shift_int)
  have e: "y - 1969 + 1 = y - 1968" "y - 1901 + 1 = y - 1900" "y - 1601 + 1 = y - 1600"
    by simp_all
  have "(y - 1969 + 1) div 4 = (y - 1969) div 4 + (if (y - 1969 + 1) mod 4 = 0 then 1 else 0)"
    "(y - 1901 + 1) div 100 = (y - 1901) div 100 + (if (y - 1901 + 1) mod 100 = 0 then 1 else 0)"
    "(y - 1601 + 1) div 400 = (y - 1601) div 400 + (if (y - 1601 + 1) mod 400 = 0 then 1 else 0)"
    by (rule div_succ_int; simp)+
  then have d: "(y - 1968) div 4 = (y - 1969) div 4 + (if y mod 4 = 0 then 1 else 0)"
    "(y - 1900) div 100 = (y - 1901) div 100 + (if y mod 100 = 0 then 1 else 0)"
    "(y - 1600) div 400 = (y - 1601) div 400 + (if y mod 400 = 0 then 1 else 0)"
    by (simp_all only: e m)
  have "day_from_year (y + 1) = day_from_year y + 365 + (if y mod 4 = 0 then 1 else 0)
      - (if y mod 100 = 0 then 1 else 0) + (if y mod 400 = 0 then 1 else 0)"
    by (simp add: day_from_year_def d)
  then show ?thesis
    using mod_400_100 [of y] mod_100_4 [of y]
    by (cases "y mod 400 = 0"; cases "y mod 100 = 0"; cases "y mod 4 = 0")
      (simp_all add: days_in_year_def leap_year_def)
qed

lemma days_in_year_pos: "0 < days_in_year y"
  by (simp add: days_in_year_def)

lemma day_from_year_mono:
  assumes "y \<le> y'"
  shows "day_from_year y \<le> day_from_year y'"
proof -
  obtain k where y': "y' = y + int k" using assms by (metis zle_iff_zadd)
  have "day_from_year y \<le> day_from_year (y + int k)"
  proof (induction k)
    case (Suc k)
    have "y + int (Suc k) = (y + int k) + 1" by simp
    then have "day_from_year (y + int (Suc k)) = day_from_year (y + int k) + days_in_year (y + int k)"
      by (simp only: day_from_year_succ)
    with Suc days_in_year_pos [of "y + int k"] show ?case by linarith
  qed simp
  then show ?thesis by (simp add: y')
qed

lemma day_from_year_next_le:
  "y < y' \<Longrightarrow> day_from_year y + days_in_year y \<le> day_from_year y'"
  using day_from_year_mono [of "y + 1" y'] by (simp add: day_from_year_succ)

lemma month_lengths_length [simp]: "length (month_lengths y) = 12"
  by (simp add: month_lengths_def)

lemma month_lengths_pos: "x \<in> set (month_lengths y) \<Longrightarrow> 0 < x"
  by (auto simp: month_lengths_def)

lemma month_lengths_sum: "sum_list (month_lengths y) = days_in_year y"
  by (simp add: month_lengths_def days_in_year_def)

lemma sum_list_take_mono:
  fixes xs :: "int list"
  assumes "\<forall>x \<in> set xs. 0 \<le> x" and "i \<le> j"
  shows "sum_list (take i xs) \<le> sum_list (take j xs)"
proof -
  have "take j xs = take i xs @ take (j - i) (drop i xs)"
    using assms(2) take_add [of i "j - i" xs] by simp
  moreover have "0 \<le> sum_list (take (j - i) (drop i xs))"
    using assms(1) by (intro sum_list_nonneg) (auto dest: in_set_takeD in_set_dropD)
  ultimately show ?thesis by simp
qed

lemma month_prefix_step:
  "m < 12 \<Longrightarrow> sum_list (take (Suc m) (month_lengths y)) =
     sum_list (take m (month_lengths y)) + month_lengths y ! m"
  by (simp add: take_Suc_conv_app_nth)

lemma month_prefix_mono:
  "i \<le> j \<Longrightarrow> sum_list (take i (month_lengths y)) \<le> sum_list (take j (month_lengths y))"
  using month_lengths_pos [of _ y] by (intro sum_list_take_mono) (auto intro: less_imp_le)

lemma make_day_valid:
  assumes "valid_ymd y m d"
  shows "make_day y (int m - 1) (int d) = day_from_year y + day_of_year y m d"
proof -
  have "(int m - 1) div 12 = 0" "nat ((int m - 1) mod 12) = m - 1"
    using assms by (simp_all add: valid_ymd_def div_pos_pos_trivial mod_pos_pos_trivial nat_diff_distrib)
  then show ?thesis by (simp add: make_day_def day_of_year_def)
qed

lemma day_of_year_bounds:
  assumes "valid_ymd y m d"
  shows "0 \<le> day_of_year y m d" and "day_of_year y m d < days_in_year y"
proof -
  have m: "m - 1 < 12" "Suc (m - 1) = m" using assms by (auto simp: valid_ymd_def)
  have "day_of_year y m d \<le> sum_list (take m (month_lengths y)) - 1"
    using assms month_prefix_step [OF m(1), of y] m(2) by (simp add: valid_ymd_def day_of_year_def)
  also have "\<dots> < sum_list (month_lengths y)"
    using month_prefix_mono [of m 12 y] assms by (simp add: valid_ymd_def)
  finally show "day_of_year y m d < days_in_year y" by (simp add: month_lengths_sum)
  show "0 \<le> day_of_year y m d"
    using assms month_prefix_mono [of 0 "m - 1" y] by (simp add: valid_ymd_def day_of_year_def)
qed

lemma day_of_year_strict_mono:
  assumes "valid_ymd y m d" and "valid_ymd y m' d'" and "(m, d) < (m', d')"
  shows "day_of_year y m d < day_of_year y m' d'"
proof (cases "m = m'")
  case True
  then show ?thesis using assms(3) by (simp add: day_of_year_def)
next
  case False
  then have mm: "m < m'" using assms(3) by auto
  have m: "m - 1 < 12" "Suc (m - 1) = m" using assms(1) by (auto simp: valid_ymd_def)
  have "day_of_year y m d \<le> sum_list (take m (month_lengths y)) - 1"
    using assms(1) month_prefix_step [OF m(1), of y] m(2) by (simp add: valid_ymd_def day_of_year_def)
  also have "\<dots> < sum_list (take (m' - 1) (month_lengths y))"
    using month_prefix_mono [of m "m' - 1" y] mm by linarith
  also have "\<dots> \<le> day_of_year y m' d'"
    using assms(2) by (simp add: valid_ymd_def day_of_year_def)
  finally show ?thesis .
qed

lemma make_day_strict_mono:
  assumes "valid_ymd y m d" and "valid_ymd y' m' d'" and "(y, m, d) < (y', m', d')"
  shows "make_day y (int m - 1) (int d) < make_day y' (int m' - 1) (int d')"
proof (cases "y = y'")
  case True
  then have "(m, d) < (m', d')" using assms(3) by auto
  then show ?thesis
    using day_of_year_strict_mono [of y m d m' d'] assms(1,2) True by (simp add: make_day_valid)
next
  case False
  then have "y < y'" using assms(3) by auto
  then show ?thesis
    using day_from_year_next_le [of y y'] day_of_year_bounds [OF assms(1)] day_of_year_bounds [OF assms(2)]
    by (simp add: make_day_valid assms(1,2))
qed

lemma make_day_le_iff:
  assumes "valid_ymd y m d" and "valid_ymd y' m' d'"
  shows "make_day y (int m - 1) (int d) \<le> make_day y' (int m' - 1) (int d') \<longleftrightarrow> (y, m, d) \<le> (y', m', d')"
proof
  assume "make_day y (int m - 1) (int d) \<le> make_day y' (int m' - 1) (int d')"
  then show "(y, m, d) \<le> (y', m', d')"
    using make_day_strict_mono [OF assms(2,1)] by (meson linorder_not_le)
next
  assume "(y, m, d) \<le> (y', m', d')"
  then consider "(y, m, d) = (y', m', d')" | "(y, m, d) < (y', m', d')" by (meson order.not_eq_order_implies_strict)
  then show "make_day y (int m - 1) (int d) \<le> make_day y' (int m' - 1) (int d')"
    by cases (use make_day_strict_mono [OF assms] in auto)
qed

lemma length_nat_digits_le: "0 < w \<Longrightarrow> n < 10 ^ w \<Longrightarrow> length (nat_digits n) \<le> w"
proof (induction n arbitrary: w rule: nat_digits.induct)
  case (1 n)
  show ?case
  proof (cases "n < 10")
    case True
    then show ?thesis using 1(2) by (subst nat_digits.simps) simp
  next
    case False
    obtain w' where w: "w = Suc w'" using 1(2) by (cases w) auto
    have "n div 10 < 10 ^ w'" using 1(3) w by (simp add: div_less_iff_less_mult)
    moreover have "0 < w'" using False 1(3) w by (cases w') auto
    ultimately have "length (nat_digits (n div 10)) \<le> w'" using 1(1) False by blast
    then show ?thesis using False w by (subst nat_digits.simps) simp
  qed
qed

lemma digits_value_zeros:
  "dv z = 0 \<Longrightarrow> digits_value b dv (replicate k z @ ds) = digits_value b dv ds"
proof (induction ds rule: rev_induct)
  case Nil
  then show ?case by (induction k) (simp_all add: digits_value_def replicate_append_same [symmetric])
next
  case (snoc c ds)
  then show ?case by (simp flip: append_assoc)
qed

lemma pad_digits_length: "0 < w \<Longrightarrow> n < 10 ^ w \<Longrightarrow> length (pad_digits w n) = w"
  using length_nat_digits_le [of w n] by (simp add: pad_digits_def)

lemma pad_digits_digits: "list_all is_digit (pad_digits w n)"
  using nat_digits_all_digits [of n] by (auto simp: pad_digits_def is_digit_def list_all_iff)

lemma pad_digits_value: "dec_value (pad_digits w n) = n"
  by (simp add: pad_digits_def digits_value_zeros digit_value_def)

lemma digits_n_pad:
  assumes "0 < w" and "n < 10 ^ w"
  shows "digits_n w (pad_digits w n @ rest) = Some (n, rest)"
  using pad_digits_length [OF assms] pad_digits_digits [of w n] pad_digits_value [of w n]
  by (simp add: digits_n_def)

lemma parse_year_pad:
  assumes "y < 10000"
  shows "parse_year (pad_digits 4 y @ rest) = Some (int y, rest)"
proof -
  have "length (pad_digits 4 y) = 4" using assms by (simp add: pad_digits_length)
  then obtain c r where cr: "pad_digits 4 y = c # r" by (cases "pad_digits 4 y") auto
  have "is_digit c" using pad_digits_digits [of 4 y] by (simp add: cr)
  then have "c \<noteq> CHR ''+'' \<and> c \<noteq> CHR ''-''" by (simp add: digit_not_sign)
  moreover have "digits_n 4 (pad_digits 4 y @ rest) = Some (y, rest)"
    using assms by (simp add: digits_n_pad)
  ultimately show ?thesis by (simp add: parse_year_def cr)
qed

lemma parse_month_day_pad:
  assumes "m < 100" and "d < 100"
  shows "parse_month_day (''-'' @ pad_digits 2 m @ ''-'' @ pad_digits 2 d) = Some (m, d, [])"
  using assms digits_n_pad [of 2 m "''-'' @ pad_digits 2 d"] digits_n_pad [of 2 d "[]"]
  by (simp add: parse_month_day_def sep2_def)

lemma make_day_range:
  assumes "y < 10000" and "valid_ymd (int y) m d"
  shows "\<bar>make_day (int y) (int m - 1) (int d)\<bar> \<le> 100000000"
proof -
  have "day_from_year 0 \<le> day_from_year (int y)" "day_from_year (int y) \<le> day_from_year 9999"
    using assms(1) by (simp_all add: day_from_year_mono)
  moreover have "day_from_year 0 = -719528" "day_from_year 9999 = 2932532"
    by (simp_all add: day_from_year_def)
  moreover have "days_in_year (int y) \<le> 366" by (simp add: days_in_year_def)
  ultimately show ?thesis
    using day_of_year_bounds [OF assms(2)] by (simp add: make_day_valid assms(2))
qed

lemma parse_iso_date:
  assumes "y < 10000" and "valid_ymd (int y) m d"
  shows "parse_date_string tza (iso_date y m d) = Some (make_day (int y) (int m - 1) (int d) * ms_per_day)"
proof -
  have md: "1 \<le> m" "m \<le> 12" "1 \<le> d" "d \<le> 31"
  proof -
    show "1 \<le> m" "m \<le> 12" "1 \<le> d" using assms(2) by (simp_all add: valid_ymd_def)
    have "month_lengths (int y) ! (m - 1) \<le> 31"
      using \<open>1 \<le> m\<close> \<open>m \<le> 12\<close> by (auto simp: month_lengths_def nth_Cons' less_Suc_eq)
    then show "d \<le> 31" using assms(2) by (simp add: valid_ymd_def)
  qed
  have clip: "\<bar>make_day (int y) (int m - 1) (int d) * ms_per_day\<bar> \<le> 8640000000000000"
    using make_day_range [OF assms] by (simp add: ms_per_day_def abs_mult)
  show ?thesis
    using parse_year_pad [OF assms(1), of "''-'' @ pad_digits 2 m @ ''-'' @ pad_digits 2 d"]
      parse_month_day_pad [of m d] md clip
    by (simp add: parse_date_string_def iso_date_def parse_time_part_def make_date_def time_clip_int_def)
qed

lemma iso_date_time_value:
  assumes "y < 10000" and "valid_ymd (int y) m d"
  shows "parse_date_string tza (iso_date y m d) = Some (utc_midnight (int y) m d)"
  using parse_iso_date [OF assms] by (simp add: utc_midnight_def make_date_def)

lemma utc_midnight_le_iff:
  assumes "valid_ymd y m d" and "valid_ymd y' m' d'"
  shows "utc_midnight y m d \<le> utc_midnight y' m' d' \<longleftrightarrow> (y, m, d) \<le> (y', m', d')"
  using make_day_le_iff [OF assms] by (simp add: utc_midnight_def make_date_def ms_per_day_def)

lemma make_day_upper:
  assumes "y < 10000" and "valid_ymd (int y) m d"
  shows "make_day (int y) (int m - 1) (int d) < 2932897"
proof -
  have "make_day (int y) (int m - 1) (int d) < day_from_year (int y + 1)"
    using day_of_year_bounds(2) [OF assms(2)] by (simp add: make_day_valid assms(2) day_from_year_succ)
  also have "\<dots> \<le> day_from_year 10000" using assms(1) by (simp add: day_from_year_mono)
  also have "day_from_year 10000 = 2932897" by (simp add: day_from_year_def)
  finally show ?thesis .
qed

lemma make_day_lower:
  assumes "valid_ymd (int y) m d"
  shows "-719528 \<le> make_day (int y) (int m - 1) (int d)"
proof -
  have "day_from_year 0 \<le> day_from_year (int y)" by (simp add: day_from_year_mono)
  moreover have "day_from_year 0 = -719528" by (simp add: day_from_year_def)
  ultimately show ?thesis using day_of_year_bounds(1) [OF assms] by (simp add: make_day_valid assms)
qed

text \<open>
  A row date written \<open>YYYY-MM-DD\<close> (a valid date of the years 0 to 9999) always
  parses, to a whole number of days: its time value lies between that of 0000-01-01 and
  that of 9999-12-31, well inside the range TimeClip accepts.
\<close>

theorem iso_date_time_value_bounds:
  assumes "y < 10000" and "valid_ymd (int y) m d"
  shows "\<exists>t. parse_date_string tza (iso_date y m d) = Some t \<and>
           -62167219200000 \<le> t \<and> t \<le> 253402214400000 \<and> t mod ms_per_day = 0"
  using iso_date_time_value [OF assms] make_day_upper [OF assms] make_day_lower [OF assms(2)]
  by (simp add: utc_midnight_def make_date_def ms_per_day_def)

theorem iso_date_time_value_bounds_witness:
  "(9999::nat) < 10000 \<and> valid_ymd (int 9999) 12 31 \<and>
   (\<exists>t. parse_date_string 0 (iso_date 9999 12 31) = Some t \<and>
      -62167219200000 \<le> t \<and> t \<le> 253402214400000 \<and> t mod ms_per_day = 0)"
proof -
  have v: "valid_ymd (int 9999) 12 31" by (simp add: valid_ymd_def month_lengths_def)
  show ?thesis using iso_date_time_value_bounds [of 9999 12 31 0] v by simp
qed

end
