(* ===== verification/RoundTrip.thy ===== *)
theory RoundTrip
  imports NumberToString
begin

section \<open>Number::toString read back by StringToNumber\<close>

text \<open>
  \<open>Number(route.YMileageCost)\<close> (\<open>src/pack.ts\<close>, line 106) on an array converts it to a
  string first: \<open>Array.prototype.join\<close> writes each Number with Number::toString
  (\<open>number_to_string\<close>), and StringToNumber (\<open>string_to_number\<close>) reads the result.
  This theory shows that for every finite binary64 value the two are inverse: the
  significand Number::toString chooses has exactly \<open>k\<close> digits, each of the four
  notations of \<open>format_decimal\<close> (plain, with a point, \<open>0.000ddd\<close>, exponential) parses
  to \<open>s \<cdot> 10\<^sup>n\<^sup>-\<^sup>k\<close>, and that value rounds back to \<open>x\<close> by the choice of \<open>s\<close>.
\<close>

subsection \<open>Digit strings\<close>

lemma foldl_digits_acc:
  fixes b :: nat
  shows "foldl (\<lambda>acc c. b * acc + dv c) a ys = a * b ^ length ys + foldl (\<lambda>acc c. b * acc + dv c) 0 ys"
proof (induction ys arbitrary: a)
  case (Cons y ys)
  show ?case using Cons [of "b * a + dv y"] Cons [of "dv y"] by (simp add: algebra_simps)
qed simp

lemma digits_value_append:
  "digits_value b dv (xs @ ys) = digits_value b dv xs * b ^ length ys + digits_value b dv ys"
  unfolding digits_value_def by (simp add: foldl_digits_acc [of b dv "foldl _ 0 xs"])

lemma dec_value_zeros [simp]: "dec_value (replicate z CHR ''0'') = 0"
  by (induction z) (simp_all add: replicate_append_same [symmetric] digit_value_def del: replicate_append_same)

lemma is_digit_zero [simp]: "is_digit CHR ''0''"
  by (simp add: is_digit_def)

lemma not_digit_marks [simp]:
  "\<not> is_digit CHR ''.''" "\<not> is_digit CHR ''e''" "\<not> is_digit CHR ''+''" "\<not> is_digit CHR ''-''"
  by (simp_all add: is_digit_def)

lemma takeWhile_digits:
  assumes "list_all is_digit xs" and "r = [] \<or> \<not> is_digit (hd r)"
  shows "takeWhile is_digit (xs @ r) = xs \<and> dropWhile is_digit (xs @ r) = r"
  using assms
proof (induction xs)
  case Nil
  then show ?case by (cases r) auto
qed simp

lemma parse_decimal_digits_nat [simp]: "parse_decimal_digits (nat_digits n) = Some n"
  using nat_digits_all_digits [of n] by (simp add: parse_decimal_digits_def)

lemma parse_exponent_signed:
  "parse_exponent (CHR ''e'' # (if e < 0 then CHR ''-'' else CHR ''+'') # nat_digits (nat \<bar>e\<bar>)) = Some e"
  by (simp add: parse_exponent_def)

lemma digits_not_Infinity: "list_all is_digit ip \<Longrightarrow> ip \<noteq> [] \<Longrightarrow> ip @ r \<noteq> ''Infinity''"
  by (cases ip) (auto simp: is_digit_def)

lemma parse_unsigned_point:
  assumes ip: "list_all is_digit ip" "ip \<noteq> []" and fp: "list_all is_digit fp"
    and r: "r = [] \<or> \<not> is_digit (hd r)" and x: "parse_exponent r = Some x"
  shows "parse_unsigned_decimal (ip @ CHR ''.'' # fp @ r) = Some (round_binary64 (decimal_mv ip fp x))"
proof -
  have a: "takeWhile is_digit (ip @ CHR ''.'' # fp @ r) = ip \<and> dropWhile is_digit (ip @ CHR ''.'' # fp @ r) = CHR ''.'' # fp @ r"
    using ip(1) by (intro takeWhile_digits) simp_all
  have b: "takeWhile is_digit (fp @ r) = fp \<and> dropWhile is_digit (fp @ r) = r"
    using fp r by (rule takeWhile_digits)
  show ?thesis
    using a b ip x digits_not_Infinity [OF ip, of "CHR ''.'' # fp @ r"]
    by (simp add: parse_unsigned_decimal_def Let_def)
qed

lemma parse_unsigned_exp:
  assumes ip: "list_all is_digit ip" "ip \<noteq> []" and x: "parse_exponent (CHR ''e'' # r) = Some x"
  shows "parse_unsigned_decimal (ip @ CHR ''e'' # r) = Some (round_binary64 (decimal_mv ip [] x))"
proof -
  have a: "takeWhile is_digit (ip @ CHR ''e'' # r) = ip \<and> dropWhile is_digit (ip @ CHR ''e'' # r) = CHR ''e'' # r"
    using ip(1) by (intro takeWhile_digits) simp_all
  show ?thesis
    using a ip x digits_not_Infinity [OF ip, of "CHR ''e'' # r"]
    by (simp add: parse_unsigned_decimal_def Let_def)
qed

subsection \<open>The four notations of Number::toString read back\<close>

lemma list_all_take_drop:
  "list_all P xs \<Longrightarrow> list_all P (take n xs) \<and> list_all P (drop n xs)"
  by (auto simp: list_all_iff dest: in_set_takeD in_set_dropD)

lemma list_all_digits_zeros:
  "list_all is_digit xs \<Longrightarrow>
     list_all is_digit (replicate z CHR ''0'' @ xs) \<and> list_all is_digit (xs @ replicate z CHR ''0'')"
  by (auto simp: list_all_iff set_replicate_conv_if)

lemma format_decimal_parse:
  assumes s: "0 < s" and K: "length (nat_digits s) = K"
  shows "parse_unsigned_decimal (format_decimal n K s) = Some (round_binary64 (scaled_value n K s))"
proof -
  let ?ds = "nat_digits s"
  have dig: "list_all is_digit ?ds" by (rule nat_digits_all_digits)
  have K1: "1 \<le> K" using K nat_digits_ne [of s] by (cases ?ds) auto
  have sv: "scaled_value n K s = of_nat s * ipow 10 (n - int K)" by (simp add: scaled_value_def)
  consider (plain) "int K \<le> n" "n \<le> 21"
    | (point) "\<not> (int K \<le> n \<and> n \<le> 21)" "0 < n" "n \<le> 21"
    | (small) "\<not> (0 < n \<and> n \<le> 21)" "-6 < n" "n \<le> 0"
    | (expo) "\<not> (int K \<le> n \<and> n \<le> 21)" "\<not> (0 < n \<and> n \<le> 21)" "\<not> (-6 < n \<and> n \<le> 0)"
    by linarith
  then show ?thesis
  proof cases
    case plain
    let ?z = "nat n - K"
    have f: "format_decimal n K s = ?ds @ replicate ?z CHR ''0''"
      using plain by (simp add: format_decimal_def Let_def)
    have e: "n - int K = int ?z" using plain by simp
    have "ipow 10 (n - int K) = 10 ^ ?z" unfolding e by (simp only: ipow_nat of_nat_numeral)
    then have "scaled_value n K s = of_nat (dec_value (?ds @ replicate ?z CHR ''0''))"
      by (simp add: sv digits_value_append)
    moreover have "list_all is_digit (?ds @ replicate ?z CHR ''0'')"
      using list_all_digits_zeros [OF dig] by blast
    ultimately show ?thesis
      using parse_unsigned_decimal_digits [of "?ds @ replicate ?z CHR ''0''"] by (simp add: f)
  next
    case point
    let ?m = "nat n"
    have f: "format_decimal n K s = take ?m ?ds @ CHR ''.'' # drop ?m ?ds @ []"
      using point by (simp add: format_decimal_def Let_def)
    have ne: "take ?m ?ds \<noteq> []" using point by simp
    have "decimal_mv (take ?m ?ds) (drop ?m ?ds) 0 = scaled_value n K s"
      using point K by (simp add: decimal_mv_def sv)
    then show ?thesis
      using parse_unsigned_point [of "take ?m ?ds" "drop ?m ?ds" "[]" 0] list_all_take_drop [OF dig, of ?m] ne
      by (simp only: f) (simp add: parse_exponent_def)
  next
    case small
    let ?z = "nat (- n)"
    have f: "format_decimal n K s = ''0'' @ CHR ''.'' # (replicate ?z CHR ''0'' @ ?ds) @ []"
      using small K1 by (simp add: format_decimal_def Let_def)
    have "dec_value (replicate (Suc ?z) CHR ''0'' @ ?ds) = s"
      by (simp only: digits_value_append dec_value_zeros dec_value_nat_digits mult_0 add_0)
    then have "dec_value (''0'' @ replicate ?z CHR ''0'' @ ?ds) = s" by simp
    then have "decimal_mv ''0'' (replicate ?z CHR ''0'' @ ?ds) 0 = scaled_value n K s"
      using small K by (simp add: decimal_mv_def sv)
    moreover have "list_all is_digit (replicate ?z CHR ''0'' @ ?ds)"
      using list_all_digits_zeros [OF dig] by blast
    ultimately show ?thesis
      using parse_unsigned_point [of "''0''" "replicate ?z CHR ''0'' @ ?ds" "[]" 0]
      by (simp only: f) (simp add: parse_exponent_def)
  next
    case expo
    let ?e = "n - 1"
    let ?es = "(if ?e < 0 then CHR ''-'' else CHR ''+'') # nat_digits (nat \<bar>?e\<bar>)"
    have x: "parse_exponent (CHR ''e'' # ?es) = Some ?e" by (rule parse_exponent_signed)
    have c: "(int K \<le> n \<and> n \<le> 21) = False" "(0 < n \<and> n \<le> 21) = False" "(-6 < n \<and> n \<le> 0) = False"
      using expo by simp_all
    have f0: "format_decimal n K s =
        (if K = 1 then ?ds @ ''e'' @ ?es else take 1 ?ds @ ''.'' @ drop 1 ?ds @ ''e'' @ ?es)"
      by (simp only: format_decimal_def Let_def c if_False)
    show ?thesis
    proof (cases "K = 1")
      case True
      have f: "format_decimal n K s = ?ds @ CHR ''e'' # ?es"
        using f0 True by simp
      have "decimal_mv ?ds [] ?e = scaled_value n K s" using True by (simp add: decimal_mv_def scaled_value_def)
      then show ?thesis using parse_unsigned_exp [OF dig nat_digits_ne x] by (simp only: f)
    next
      case False
      have f: "format_decimal n K s = take 1 ?ds @ CHR ''.'' # drop 1 ?ds @ (CHR ''e'' # ?es)"
        using f0 False by simp
      have ne: "take 1 ?ds \<noteq> []" by simp
      have "decimal_mv (take 1 ?ds) (drop 1 ?ds) ?e = scaled_value n K s"
        using K K1 by (simp add: decimal_mv_def sv algebra_simps)
      then show ?thesis
        using parse_unsigned_point [of "take 1 ?ds" "drop 1 ?ds" "CHR ''e'' # ?es" ?e]
          list_all_take_drop [OF dig, of 1] ne x
        by (simp only: f) simp
    qed
  qed
qed

subsection \<open>The significand has exactly \<open>k\<close> digits\<close>

lemma decimal_candidates_range:
  assumes x: "0 < x" and K: "1 \<le> K" and c: "(n, s) \<in> set (decimal_candidates x K)"
  shows "10 ^ (K - 1) \<le> s \<and> s < 10 ^ K"
proof -
  let ?n0 = "floor_log 10 x + 1"
  let ?t = "x * ipow 10 (int K - ?n0)"
  have b: "ipow 10 (?n0 - 1) \<le> x \<and> x < ipow 10 ?n0" using floor_log_bounds [of 10 x] x by simp
  have p: "0 < ipow 10 (int K - ?n0)" by simp
  have lo: "of_int (10 ^ (K - 1)) \<le> ?t"
  proof -
    have a: "ipow 10 (?n0 - 1) * ipow 10 (int K - ?n0) = ipow 10 ((?n0 - 1) + (int K - ?n0))"
      by (rule ipow_add [symmetric]) simp
    have e: "(?n0 - 1) + (int K - ?n0) = int (K - 1)" using K by simp
    have c: "ipow 10 (int (K - 1)) = of_int (10 ^ (K - 1))"
      by (simp only: ipow_nat of_int_power of_int_numeral of_nat_numeral)
    have "of_int (10 ^ (K - 1)) = ipow 10 (?n0 - 1) * ipow 10 (int K - ?n0)"
      by (simp only: a e c)
    also have "\<dots> \<le> ?t" using b less_imp_le [OF p] by (intro mult_right_mono) simp_all
    finally show ?thesis .
  qed
  have hi: "?t < of_int (10 ^ K)"
  proof -
    have "?t < ipow 10 ?n0 * ipow 10 (int K - ?n0)" using b p by (intro mult_strict_right_mono) simp_all
    also have "\<dots> = of_int (10 ^ K)" by (simp add: ipow_add [symmetric])
    finally show ?thesis .
  qed
  have f1: "10 ^ (K - 1) \<le> \<lfloor>?t\<rfloor>" "\<lfloor>?t\<rfloor> < 10 ^ K" using lo hi by (simp_all add: le_floor_iff floor_less_iff)
  have c1: "\<lceil>?t\<rceil> \<le> 10 ^ K" using hi by (simp add: ceiling_le_iff)
  have c2: "10 ^ (K - 1) \<le> \<lceil>?t\<rceil>" using f1(1) floor_le_ceiling [of ?t] by linarith
  have pos: "(1::nat) \<le> 10 ^ (K - 1)" by simp
  have "10 ^ (K - 1) < (10::nat) ^ K" using K by (simp add: power_strict_increasing)
  then show ?thesis
    using c f1 c1 c2
    by (auto simp: decimal_candidates_def Let_def nat_less_iff le_nat_iff split: if_splits)
qed

lemma nat_digits_length_eq:
  assumes K: "1 \<le> K" and lo: "10 ^ (K - 1) \<le> s" and hi: "s < 10 ^ K"
  shows "length (nat_digits s) = K"
proof -
  let ?L = "length (nat_digits s)"
  have s: "0 < s" using lo by (metis less_le_trans zero_less_numeral zero_less_power)
  have L: "10 ^ (?L - 1) \<le> s" "s < 10 ^ ?L" using nat_digits_bounds [OF s] by simp_all
  have L1: "1 \<le> ?L" using nat_digits_ne [of s] by (cases "nat_digits s") auto
  have "\<not> ?L < K"
  proof
    assume "?L < K"
    then have "(10::nat) ^ ?L \<le> 10 ^ (K - 1)" by (intro power_increasing) simp_all
    then show False using L lo by linarith
  qed
  moreover have "\<not> K < ?L"
  proof
    assume "K < ?L"
    then have "(10::nat) ^ K \<le> 10 ^ (?L - 1)" by (intro power_increasing) simp_all
    then show False using L hi by linarith
  qed
  ultimately show ?thesis by simp
qed

lemma shortest_decimal_ge: "shortest_decimal fuel x k = Some (n, K, s) \<Longrightarrow> k \<le> K"
  by (induction fuel arbitrary: k) (fastforce split: option.splits)+

subsection \<open>The whole string\<close>

lemma format_decimal_set:
  "set (format_decimal n K s) \<subseteq>
     set (nat_digits s) \<union> set (nat_digits (nat \<bar>n - 1\<bar>)) \<union> {CHR ''0'', CHR ''.'', CHR ''e'', CHR ''+'', CHR ''-''}"
  by (auto simp: format_decimal_def Let_def set_replicate_conv_if dest!: in_set_takeD in_set_dropD split: if_splits)

lemma format_decimal_chars:
  assumes c: "c \<in> set (format_decimal n K s)"
  shows "is_digit c \<or> c \<in> set ''.e+-''"
proof -
  have d: "is_digit c" if "c \<in> set (nat_digits t)" for t
    using that nat_digits_all_digits [of t] by (simp add: list_all_iff)
  have "c \<in> set (nat_digits s) \<or> c \<in> set (nat_digits (nat \<bar>n - 1\<bar>)) \<or> c = CHR ''0'' \<or>
      c \<in> set ''.e+-''"
    using format_decimal_set c by auto
  then show ?thesis using d by auto
qed

lemma format_decimal_hd:
  "format_decimal n K s \<noteq> [] \<and> is_digit (hd (format_decimal n K s))"
proof -
  obtain d ds where ds: "nat_digits s = d # ds" using nat_digits_ne [of s] by (cases "nat_digits s") auto
  have "is_digit d" using nat_digits_all_digits [of s] by (simp add: ds)
  then show ?thesis
    by (auto simp: format_decimal_def Let_def ds take_Cons' split: if_splits)
qed

lemma number_chars_not_space: "is_digit c \<or> c \<in> set ''.e+-'' \<Longrightarrow> \<not> js_whitespace c"
proof (cases "is_digit c")
  case False
  then show "is_digit c \<or> c \<in> set ''.e+-'' \<Longrightarrow> \<not> js_whitespace c" by (auto simp: js_whitespace_def)
qed (simp add: digit_not_whitespace)

lemma number_chars_not_radix: "is_digit c \<or> c \<in> set ''.e+-'' \<Longrightarrow> c \<notin> set ''bBoOxX''"
  by (auto simp: is_digit_def)

lemma parse_nondecimal_number_chars:
  assumes "\<forall>c \<in> set str. is_digit c \<or> c \<in> set ''.e+-''"
  shows "parse_nondecimal str = None"
proof (cases str rule: remdups_adj.cases)
  case (3 c0 c1 r)
  then have "c1 \<notin> set ''bBoOxX''" using assms number_chars_not_radix by simp
  then show ?thesis using 3 by (auto simp: parse_nondecimal_def)
qed (simp_all add: parse_nondecimal_def)

lemma string_to_number_unsigned:
  assumes ne: "str \<noteq> []" and hd: "is_digit (hd str)" and cs: "\<forall>c \<in> set str. is_digit c \<or> c \<in> set ''.e+-''"
  shows "string_to_number str = (case parse_unsigned_decimal str of Some v \<Rightarrow> v | None \<Rightarrow> NaN)"
    and "string_to_number (CHR ''-'' # str) =
           (case parse_unsigned_decimal str of Some v \<Rightarrow> jsnum_neg v | None \<Rightarrow> NaN)"
proof -
  have ws: "\<forall>c \<in> set str. \<not> js_whitespace c" using cs number_chars_not_space by blast
  have "\<not> js_whitespace CHR ''-''" by (simp add: js_whitespace_def)
  then have ws': "\<forall>c \<in> set (CHR ''-'' # str). \<not> js_whitespace c" using ws by simp
  have nd: "parse_nondecimal str = None" using cs by (rule parse_nondecimal_number_chars)
  have nd': "parse_nondecimal (CHR ''-'' # str) = None"
    using cs by (intro parse_nondecimal_number_chars) simp
  obtain c r where cr: "str = c # r" using ne by (cases str) auto
  have "c \<noteq> CHR ''+'' \<and> c \<noteq> CHR ''-''" using hd digit_not_sign by (simp add: cr)
  then show "string_to_number str = (case parse_unsigned_decimal str of Some v \<Rightarrow> v | None \<Rightarrow> NaN)"
    using ne ws nd
    by (simp add: string_to_number_def js_trim_id parse_str_numeric_def parse_str_decimal_def cr
        split: option.splits)
  show "string_to_number (CHR ''-'' # str) =
           (case parse_unsigned_decimal str of Some v \<Rightarrow> jsnum_neg v | None \<Rightarrow> NaN)"
    using ws' nd'
    by (simp add: string_to_number_def js_trim_id parse_str_numeric_def parse_str_decimal_def
        split: option.splits)
qed

subsection \<open>The round trip\<close>

lemma positive_to_string_binary64:
  assumes m: "0 < m" "m < 2 ^ 53" and k: "-1074 \<le> k" "k \<le> 971"
  obtains n K s where "positive_to_string (of_int m * ipow 2 k) = format_decimal n K s"
    and "0 < s" and "length (nat_digits s) = K"
    and "round_binary64 (scaled_value n K s) = Fin (of_int m * ipow 2 k)"
proof -
  define x where "x = of_int m * ipow 2 k"
  have x: "0 < x" using m by (simp add: x_def)
  obtain n K s where sd: "shortest_decimal (digit_budget x) x 1 = Some (n, K, s)"
    and pick: "pick_decimal x K = Some (n, s)"
    using shortest_decimal_binary64 [OF m k] unfolding x_def [symmetric] by blast
  have K: "1 \<le> K" using shortest_decimal_ge [OF sd] .
  have "(n, s) \<in> set (decimal_candidates x K)" using pick_decimal_in [OF pick] by simp
  then have r: "10 ^ (K - 1) \<le> s \<and> s < 10 ^ K" by (rule decimal_candidates_range [OF x K])
  then have len: "length (nat_digits s) = K" using K by (intro nat_digits_length_eq) simp_all
  have s: "0 < s" using r by (metis less_le_trans zero_less_numeral zero_less_power)
  have pts: "positive_to_string x = format_decimal n K s"
    unfolding positive_to_string_def decimal_triple_def sd by simp
  show ?thesis using that [OF pts [unfolded x_def] s len] pick_decimal_sound [OF pick] by (simp add: x_def)
qed

lemma positive_to_string_roundtrip:
  assumes m: "0 < m" "m < 2 ^ 53" and k: "-1074 \<le> k" "k \<le> 971"
  shows "string_to_number (positive_to_string (of_int m * ipow 2 k)) = Fin (of_int m * ipow 2 k)"
proof -
  obtain n K s where pts: "positive_to_string (of_int m * ipow 2 k) = format_decimal n K s"
    and s: "0 < s" and len: "length (nat_digits s) = K"
    and r: "round_binary64 (scaled_value n K s) = Fin (of_int m * ipow 2 k)"
    by (rule positive_to_string_binary64 [OF m k])
  have "parse_unsigned_decimal (format_decimal n K s) = Some (Fin (of_int m * ipow 2 k))"
    using format_decimal_parse [OF s len] r by simp
  then show ?thesis
    using string_to_number_unsigned(1) [of "format_decimal n K s"] format_decimal_hd [of n K s]
      format_decimal_chars [of _ n K s]
    by (simp add: pts)
qed

lemma number_to_string_pos: "0 < x \<Longrightarrow> number_to_string (Fin x) = positive_to_string x"
  by simp

lemma number_to_string_neg: "x < 0 \<Longrightarrow> number_to_string (Fin x) = CHR ''-'' # positive_to_string (- x)"
  by simp

lemma string_to_number_minus:
  assumes y: "string_to_number (positive_to_string y) = Fin y"
  shows "string_to_number (CHR ''-'' # positive_to_string y) = Fin (- y)"
proof -
  obtain n K s where dt: "decimal_triple y = (n, K, s)" by (cases "decimal_triple y")
  have pts: "positive_to_string y = format_decimal n K s" unfolding positive_to_string_def dt by simp
  have h: "format_decimal n K s \<noteq> []" "is_digit (hd (format_decimal n K s))"
    "\<forall>c \<in> set (format_decimal n K s). is_digit c \<or> c \<in> set ''.e+-''"
    using format_decimal_hd [of n K s] format_decimal_chars [of _ n K s] by blast+
  have "parse_unsigned_decimal (format_decimal n K s) = Some (Fin y)"
    using y string_to_number_unsigned(1) [OF h] by (simp add: pts split: option.splits)
  then show ?thesis using string_to_number_unsigned(2) [OF h] by (simp add: pts)
qed

lemma number_to_string_roundtrip_abs:
  assumes x: "x \<noteq> 0" and a: "string_to_number (positive_to_string \<bar>x\<bar>) = Fin \<bar>x\<bar>"
  shows "string_to_number (number_to_string (Fin x)) = Fin x"
proof (cases "0 < x")
  case True
  then show ?thesis using a by (simp add: number_to_string_pos)
next
  case False
  then have "x < 0" using x by simp
  moreover have "string_to_number (CHR ''-'' # positive_to_string (- x)) = Fin x"
    using string_to_number_minus [OF a] \<open>x < 0\<close> by simp
  ultimately show ?thesis by (simp only: number_to_string_neg)
qed

lemma binary64_abs_roundtrip:
  assumes m: "m \<noteq> 0" "\<bar>m\<bar> < 2 ^ 53" and k: "-1074 \<le> k" "k \<le> 971"
  shows "string_to_number (positive_to_string \<bar>of_int m * ipow 2 k\<bar>) = Fin \<bar>of_int m * ipow 2 k\<bar>"
proof -
  have "\<bar>of_int m * ipow 2 k\<bar> = (of_int \<bar>m\<bar> * ipow 2 k :: rat)"
    by (simp add: abs_mult less_imp_le [OF ipow_pos])
  moreover have "0 < \<bar>m\<bar>" using m by simp
  ultimately show ?thesis using positive_to_string_roundtrip [of "\<bar>m\<bar>" k] m(2) k by simp
qed

text \<open>
  Number::toString is read back exactly by StringToNumber: for every finite
  binary64 value \<open>m \<cdot> 2\<^sup>k\<close> (zero, negative and subnormal values included),
  \<open>Number(String(x))\<close> is \<open>x\<close>, whichever of the four notations the value is written in.
\<close>

theorem number_to_string_roundtrip:
  assumes m: "\<bar>m\<bar> < 2 ^ 53" and k: "-1074 \<le> k" "k \<le> 971"
  shows "string_to_number (number_to_string (Fin (of_int m * ipow 2 k))) = Fin (of_int m * ipow 2 k)"
proof (cases "m = 0")
  case True
  then show ?thesis by (simp add: js_eval round_binary64_def)
next
  case False
  then show ?thesis
    using number_to_string_roundtrip_abs [OF _ binary64_abs_roundtrip [OF False m k]] by simp
qed

theorem number_to_string_roundtrip_witness:
  "\<bar>-3::int\<bar> < 2 ^ 53 \<and> (-1074::int) \<le> -1074 \<and> (-1074::int) \<le> 971 \<and>
   string_to_number (number_to_string (Fin (of_int (-3) * ipow 2 (-1074)))) = Fin (of_int (-3) * ipow 2 (-1074))"
  using number_to_string_roundtrip [of "-3" "-1074"] by simp

end
