(* ===== verification/Schema.thy ===== *)
theory Schema
  imports JsValue
begin

section \<open>The row schemas\<close>

text \<open>
  \<open>coda.makeObjectSchema\<close> declarations of \<open>src/pack.ts\<close>: \<open>routeSchema\<close> (lines 7 to
  22) and the Availability schema (lines 43 to 76). A schema names its identity and display
  properties, its featured properties, and for each property its value type, the key of
  the upstream object it is read from (\<open>fromKey\<close>) and an optional value hint; the
  Availability schema nests \<open>routeSchema\<close> under \<open>route\<close>, read from \<open>Route\<close>
  (\<open>{...routeSchema, fromKey: 'Route'}\<close>). The host reads the rows through these
  declarations; the model keeps them as data and states what makes them usable: every
  named property exists, names and source keys are unique, and the cost fields the
  Availability stage rewrites are Number columns.
\<close>

datatype value_type = StringType | NumberType | BooleanType

datatype value_hint = DateHint

datatype prop_schema =
    Scalar value_type string "value_hint option"
  | Nested object_schema string
and object_schema =
    ObjectSchema string string "string list" "(string \<times> prop_schema) list"

fun prop_from_key :: "prop_schema \<Rightarrow> string" where
  "prop_from_key (Scalar t k h) = k"
| "prop_from_key (Nested s k) = k"

fun schema_id :: "object_schema \<Rightarrow> string" where
  "schema_id (ObjectSchema i d f ps) = i"

fun schema_display :: "object_schema \<Rightarrow> string" where
  "schema_display (ObjectSchema i d f ps) = d"

fun schema_featured :: "object_schema \<Rightarrow> string list" where
  "schema_featured (ObjectSchema i d f ps) = f"

fun schema_props :: "object_schema \<Rightarrow> (string \<times> prop_schema) list" where
  "schema_props (ObjectSchema i d f ps) = ps"

text \<open>Well-formedness, checked recursively through nested schemas.\<close>

fun wf_schema :: "object_schema \<Rightarrow> bool"
  and wf_prop :: "prop_schema \<Rightarrow> bool" where
  "wf_schema (ObjectSchema i d f ps) \<longleftrightarrow>
     distinct (map fst ps) \<and> distinct (map (prop_from_key \<circ> snd) ps) \<and>
     i \<in> set (map fst ps) \<and> d \<in> set (map fst ps) \<and> set f \<subseteq> set (map fst ps) \<and>
     list_all (wf_prop \<circ> snd) ps"
| "wf_prop (Scalar t k h) \<longleftrightarrow> k \<noteq> []"
| "wf_prop (Nested s k) \<longleftrightarrow> k \<noteq> [] \<and> wf_schema s"

text \<open>The property of a schema read from the upstream key \<open>k\<close>.\<close>

definition prop_by_from_key :: "object_schema \<Rightarrow> string \<Rightarrow> (string \<times> prop_schema) option" where
  "prop_by_from_key s k = find (\<lambda>(n, p). prop_from_key p = k) (schema_props s)"

definition route_schema :: object_schema where
  "route_schema =
     ObjectSchema ''id'' ''id'' [''originAirport'', ''destinationAirport'', ''distance'', ''numDaysOut'']
       [(''id'', Scalar StringType ''ID'' None),
        (''originAirport'', Scalar StringType ''OriginAirport'' None),
        (''originRegion'', Scalar StringType ''OriginRegion'' None),
        (''destinationAirport'', Scalar StringType ''DestinationAirport'' None),
        (''destinationRegion'', Scalar StringType ''DestinationRegion'' None),
        (''numDaysOut'', Scalar NumberType ''NumDaysOut'' None),
        (''distance'', Scalar NumberType ''Distance'' None),
        (''source'', Scalar StringType ''Source'' None),
        (''autoCreated'', Scalar BooleanType ''AutoCreated'' None)]"

definition availability_schema :: object_schema where
  "availability_schema =
     ObjectSchema ''id'' ''id''
       [''route'', ''date'', ''yAvailable'', ''wAvailable'', ''jAvailable'', ''fAvailable'',
        ''yMileageCost'', ''wMileageCost'', ''jMileageCost'', ''fMileageCost'']
       [(''id'', Scalar StringType ''ID'' None),
        (''routeID'', Scalar StringType ''RouteID'' None),
        (''route'', Nested route_schema ''Route''),
        (''date'', Scalar StringType ''Date'' (Some DateHint)),
        (''yAvailable'', Scalar BooleanType ''YAvailable'' None),
        (''wAvailable'', Scalar BooleanType ''WAvailable'' None),
        (''jAvailable'', Scalar BooleanType ''JAvailable'' None),
        (''fAvailable'', Scalar BooleanType ''FAvailable'' None),
        (''yMileageCost'', Scalar NumberType ''YMileageCost'' None),
        (''wMileageCost'', Scalar NumberType ''WMileageCost'' None),
        (''jMileageCost'', Scalar NumberType ''JMileageCost'' None),
        (''fMileageCost'', Scalar NumberType ''FMileageCost'' None),
        (''yRemainingSeats'', Scalar NumberType ''YRemainingSeats'' None),
        (''wRemainingSeats'', Scalar NumberType ''WRemainingSeats'' None),
        (''jRemainingSeats'', Scalar NumberType ''JRemainingSeats'' None),
        (''fRemainingSeats'', Scalar NumberType ''FRemainingSeats'' None),
        (''yAirlines'', Scalar StringType ''YAirlines'' None),
        (''wAirlines'', Scalar StringType ''WAirlines'' None),
        (''jAirlines'', Scalar StringType ''JAirlines'' None),
        (''fAirlines'', Scalar StringType ''FAirlines'' None),
        (''yDirect'', Scalar BooleanType ''YDirect'' None),
        (''wDirect'', Scalar BooleanType ''WDirect'' None),
        (''jDirect'', Scalar BooleanType ''JDirect'' None),
        (''fDirect'', Scalar BooleanType ''FDirect'' None),
        (''source'', Scalar StringType ''Source'' None),
        (''computedLastSeen'', Scalar StringType ''ComputedLastSeen'' None),
        (''apiTermsOfUse'', Scalar StringType ''APITermsOfUse'' None)]"

end
