(* ===== verification/Availability.thy ===== *)
theory Availability
  imports DateTime Fetcher Calendar RoundTrip Schema
begin

section \<open>The Availability sync table\<close>

text \<open>
  \<open>src/pack.ts\<close>, lines 94 to 113. The formula fetches
  \<open>withQueryParams('https://seats.aero/api/availability', {source})\<close> and returns
  \<^verbatim>\<open>resp.body.filter(route => ...).map(route => ({...route, ...}))\<close>:
  \<^item> the filter callback (lines 97 to 102): when \<open>dates\<close> is truthy (any array, even an
    empty one) it keeps a row iff \<open>new Date(route.ParsedDate) >= dates[0]\<close> and
    \<open><= dates[1]\<close>; when \<open>dates\<close> is \<open>undefined\<close> it keeps every row;
  \<^item> the map callback (lines 103 to 111) copies the row's own enumerable properties and
    sets \<open>YMileageCost\<close>, \<open>WMileageCost\<close>, \<open>JMileageCost\<close>, \<open>FMileageCost\<close>, in
    this order, to \<open>Number(route.XMileageCost) || undefined\<close>.
  \<open>Array.prototype.filter\<close> and \<open>map\<close> visit the elements in order and rethrow the
  first exception of a callback; \<open>.filter\<close> of a body that is not an array is not a
  function, which is a TypeError. The \<open>dates\<close> parameter is the host's \<open>DateArray\<close>:
  \<open>None\<close> when omitted, else the list of the Dates' time values. \<open>tza\<close> is the
  runtime's local time zone offset used by \<open>new Date\<close>.
\<close>

definition availability_base_url :: string where
  "availability_base_url = ''https://seats.aero/api/availability''"

definition availability_request :: "string \<Rightarrow> fetch_request" where
  "availability_request source =
     \<lparr>req_url = with_query_params availability_base_url [(''source'', source)], req_method = ''GET''\<rparr>"

text \<open>\<open>Array.prototype.filter\<close> and \<open>Array.prototype.map\<close> with callbacks that may throw.\<close>

fun filter_js :: "('a \<Rightarrow> bool js_result) \<Rightarrow> 'a list \<Rightarrow> 'a list js_result" where
  "filter_js p [] = Inr []"
| "filter_js p (x # xs) =
     bind_res (p x) (\<lambda>keep. map_sum id (\<lambda>ys. if keep then x # ys else ys) (filter_js p xs))"

fun map_js :: "('a \<Rightarrow> 'b js_result) \<Rightarrow> 'a list \<Rightarrow> 'b list js_result" where
  "map_js f [] = Inr []"
| "map_js f (x # xs) = bind_res (f x) (\<lambda>y. map_sum id (Cons y) (map_js f xs))"

text \<open>The filter callback, lines 97 to 102.\<close>

definition date_in_range :: "int \<Rightarrow> time_value list option \<Rightarrow> jsval \<Rightarrow> bool js_result" where
  "date_in_range tza dates route =
     (case dates of
        None \<Rightarrow> Inr True
      | Some ds \<Rightarrow>
          bind_res (get_prop route ''ParsedDate'') (\<lambda>pd.
          bind_res (new_date tza pd) (\<lambda>parsed.
          Inr (tv_ge parsed (tv_index ds 0) \<and> tv_le parsed (tv_index ds 1)))))"

text \<open>One cost field, line 106: \<open>Number(route[key]) || undefined\<close>.\<close>

definition mileage_cost :: "jsval \<Rightarrow> string \<Rightarrow> jsval js_result" where
  "mileage_cost route key =
     bind_res (get_prop route key) (\<lambda>v.
     bind_res (to_number v) (\<lambda>n.
     Inr (js_or (JNumber n) JUndefined)))"

text \<open>The map callback, lines 103 to 111: the spread, then the four cost fields in order.\<close>

definition transform_row :: "jsval \<Rightarrow> jsval js_result" where
  "transform_row route =
     bind_res (mileage_cost route ''YMileageCost'') (\<lambda>y.
     bind_res (mileage_cost route ''WMileageCost'') (\<lambda>w.
     bind_res (mileage_cost route ''JMileageCost'') (\<lambda>j.
     bind_res (mileage_cost route ''FMileageCost'') (\<lambda>f.
     Inr (JObject
       (set_prop (set_prop (set_prop (set_prop (own_enumerable route)
          ''YMileageCost'' y) ''WMileageCost'' w) ''JMileageCost'' j) ''FMileageCost'' f))))))"

text \<open>The filter/transform stage applied to the response body, lines 97 to 111.\<close>

definition availability_rows :: "int \<Rightarrow> time_value list option \<Rightarrow> jsval \<Rightarrow> jsval js_result" where
  "availability_rows tza dates body =
     (case body of
        JArray rows \<Rightarrow>
          bind_res (filter_js (date_in_range tza dates) rows) (\<lambda>kept.
          map_sum id JArray (map_js transform_row kept))
      | _ \<Rightarrow> Inl TypeError)"

text \<open>The whole \<open>execute\<close> function, lines 94 to 113.\<close>

definition availability_execute ::
  "fetcher \<Rightarrow> int \<Rightarrow> string \<Rightarrow> time_value list option \<Rightarrow> jsval js_result" where
  "availability_execute fetch tza source dates =
     bind_res (fetch (availability_request source)) (\<lambda>resp.
     availability_rows tza dates (resp_body resp))"

text \<open>The rows of the spec's scenarios (section 8), used as concrete inputs by the
  witnesses: two upstream rows and the January 2024 range, the range ends being the Dates
  of 2024-01-01 and 2024-01-31 at midnight UTC.\<close>

definition spec_row_jan :: jsval where
  "spec_row_jan = JObject [(''ParsedDate'', JString ''2024-01-05''), (''YMileageCost'', JString ''12500'')]"

definition spec_row_feb :: jsval where
  "spec_row_feb = JObject [(''ParsedDate'', JString ''2024-02-01''), (''YMileageCost'', JString [])]"

definition spec_january :: "time_value list" where
  "spec_january = [Some 1704067200000, Some 1706659200000]"

text \<open>The rows the stage makes of them: the cost parsed, the missing costs set to
  \<open>undefined\<close>.\<close>

definition spec_out_jan :: jsval where
  "spec_out_jan = JObject [(''ParsedDate'', JString ''2024-01-05''), (''YMileageCost'', JNumber (Fin 12500)),
     (''WMileageCost'', JUndefined), (''JMileageCost'', JUndefined), (''FMileageCost'', JUndefined)]"

definition spec_out_feb :: jsval where
  "spec_out_feb = JObject [(''ParsedDate'', JString ''2024-02-01''), (''YMileageCost'', JUndefined),
     (''WMileageCost'', JUndefined), (''JMileageCost'', JUndefined), (''FMileageCost'', JUndefined)]"

declare date_in_range_def [js_eval] mileage_cost_def [js_eval] transform_row_def [js_eval]
  availability_rows_def [js_eval] js_or_def [js_eval] num_truthy_def [js_eval]
  object_to_primitive_def [js_eval]

subsection \<open>Facts about the stage\<close>

lemma filter_js_all:
  "(\<forall>x \<in> set xs. p x = Inr True) \<Longrightarrow> filter_js p xs = Inr xs"
  by (induction xs) auto

lemma filter_js_Inl: "filter_js p xs = Inl e \<Longrightarrow> \<exists>x \<in> set xs. p x = Inl e"
  by (induction xs) (auto simp: bind_res_eq_Inl_iff)

lemma filter_js_Inr: "filter_js p xs = Inr ys \<Longrightarrow> \<forall>x \<in> set xs. \<exists>b. p x = Inr b"
  by (induction xs arbitrary: ys) (auto simp: bind_res_eq_Inr_iff)

lemma filter_js_keeps:
  "filter_js p xs = Inr ys \<Longrightarrow> x \<in> set xs \<Longrightarrow> p x = Inr True \<Longrightarrow> x \<in> set ys"
  by (induction xs arbitrary: ys) (auto simp: bind_res_eq_Inr_iff)

lemma map_js_Inl: "map_js f xs = Inl e \<Longrightarrow> \<exists>x \<in> set xs. f x = Inl e"
  by (induction xs) (auto simp: bind_res_eq_Inl_iff)

lemma map_js_Inr: "map_js f xs = Inr ys \<Longrightarrow> \<forall>x \<in> set xs. \<exists>y. f x = Inr y"
  by (induction xs arbitrary: ys) (auto simp: bind_res_eq_Inr_iff)

lemma map_js_length: "map_js f xs = Inr ys \<Longrightarrow> length ys = length xs"
  by (induction xs arbitrary: ys) (auto simp: bind_res_eq_Inr_iff)

lemma map_js_nth: "map_js f xs = Inr ys \<Longrightarrow> i < length xs \<Longrightarrow> f (xs ! i) = Inr (ys ! i)"
  by (induction xs arbitrary: ys i) (auto simp: bind_res_eq_Inr_iff nth_Cons split: nat.splits)

lemma map_js_fixpoint:
  assumes "map_js f xs = Inr ys" and "\<And>x y. f x = Inr y \<Longrightarrow> f y = Inr y"
  shows "map_js f ys = Inr ys"
  using assms(1)
proof (induction xs arbitrary: ys)
  case Nil
  then show ?case by simp
next
  case (Cons x xs)
  then obtain y ys' where "f x = Inr y" "map_js f xs = Inr ys'" "ys = y # ys'"
    by (auto simp: bind_res_eq_Inr_iff)
  with Cons.IH assms(2) show ?case by simp
qed

lemma set_prop_same: "map_of ps k = Some v \<Longrightarrow> set_prop ps k v = ps"
  by (induction ps k v rule: set_prop.induct) (auto split: if_splits)

lemma js_or_number: "js_or (JNumber n) JUndefined = (if num_truthy n then JNumber n else JUndefined)"
  by (simp add: js_or_def)

lemma cost_value_fixpoint:
  "bind_res (to_number (js_or (JNumber n) JUndefined)) (\<lambda>m. Inr (js_or (JNumber m) JUndefined)) =
   Inr (js_or (JNumber n) JUndefined)"
  by (simp add: js_or_def num_truthy_def)

lemma get_prop_TypeError: "get_prop v k = Inl e \<Longrightarrow> e = TypeError"
  by (cases v) auto

lemma new_date_TypeError: "new_date tza v = Inl e \<Longrightarrow> e = TypeError"
  using to_js_string_error(1) [of v]
  by (cases v) (auto simp: object_to_primitive_def split: if_splits)

lemma date_in_range_TypeError: "date_in_range tza dates r = Inl e \<Longrightarrow> e = TypeError"
  by (auto simp: date_in_range_def bind_res_eq_Inl_iff dest: get_prop_TypeError new_date_TypeError
      split: option.splits)

lemma mileage_cost_TypeError: "mileage_cost r k = Inl e \<Longrightarrow> e = TypeError"
  by (auto simp: mileage_cost_def bind_res_eq_Inl_iff dest: get_prop_TypeError to_number_error_TypeError)

lemma transform_row_TypeError: "transform_row r = Inl e \<Longrightarrow> e = TypeError"
  by (auto simp: transform_row_def bind_res_eq_Inl_iff dest: mileage_cost_TypeError)

lemma availability_rows_TypeError: "availability_rows tza dates body = Inl e \<Longrightarrow> e = TypeError"
  by (auto simp: availability_rows_def bind_res_eq_Inl_iff split: jsval.splits
      dest!: filter_js_Inl map_js_Inl dest: date_in_range_TypeError transform_row_TypeError)


lemma mileage_cost_object:
  "mileage_cost (JObject ps) k =
     (case map_of ps k of
        Some v \<Rightarrow> map_sum id (\<lambda>n. js_or (JNumber n) JUndefined) (to_number v)
      | None \<Rightarrow> Inr JUndefined)"
  by (cases "to_number (case map_of ps k of Some v \<Rightarrow> v | None \<Rightarrow> JUndefined)")
    (auto simp: mileage_cost_def js_or_def num_truthy_def split: option.splits)

lemma transform_row_object_keys:
  assumes "transform_row r = Inr r'"
  shows "\<exists>ps y w j f. r' = JObject ps \<and>
     ps = set_prop (set_prop (set_prop (set_prop (own_enumerable r)
          ''YMileageCost'' y) ''WMileageCost'' w) ''JMileageCost'' j) ''FMileageCost'' f \<and>
     mileage_cost r ''YMileageCost'' = Inr y \<and> mileage_cost r ''WMileageCost'' = Inr w \<and>
     mileage_cost r ''JMileageCost'' = Inr j \<and> mileage_cost r ''FMileageCost'' = Inr f"
  using assms by (auto simp: transform_row_def bind_res_eq_Inr_iff)

lemma mileage_cost_form:
  "mileage_cost r k = Inr v \<Longrightarrow> \<exists>n. v = js_or (JNumber n) JUndefined"
  by (auto simp: mileage_cost_def bind_res_eq_Inr_iff)

lemma transform_row_idem:
  assumes "transform_row r = Inr r'"
  shows "transform_row r' = Inr r'"
proof -
  obtain ps y w j f where r': "r' = JObject ps"
    and ps: "ps = set_prop (set_prop (set_prop (set_prop (own_enumerable r)
          ''YMileageCost'' y) ''WMileageCost'' w) ''JMileageCost'' j) ''FMileageCost'' f"
    and cy: "mileage_cost r ''YMileageCost'' = Inr y" and cw: "mileage_cost r ''WMileageCost'' = Inr w"
    and cj: "mileage_cost r ''JMileageCost'' = Inr j" and cf: "mileage_cost r ''FMileageCost'' = Inr f"
    using transform_row_object_keys [OF assms] by blast
  have my: "map_of ps ''YMileageCost'' = Some y" and mw: "map_of ps ''WMileageCost'' = Some w"
    and mj: "map_of ps ''JMileageCost'' = Some j" and mf: "map_of ps ''FMileageCost'' = Some f"
    by (simp_all add: ps)
  have fixp: "\<And>v k. mileage_cost r k = Inr v \<Longrightarrow> map_of ps k = Some v \<Longrightarrow>
      mileage_cost (JObject ps) k = Inr v"
    using mileage_cost_form cost_value_fixpoint by (fastforce simp: mileage_cost_def)
  have "set_prop (set_prop (set_prop (set_prop ps ''YMileageCost'' y) ''WMileageCost'' w)
      ''JMileageCost'' j) ''FMileageCost'' f = ps"
    using my mw mj mf by (simp add: set_prop_same)
  then show ?thesis
    using fixp [OF cy my] fixp [OF cw mw] fixp [OF cj mj] fixp [OF cf mf]
    by (simp add: transform_row_def r')
qed

lemma date_in_range_object_string:
  assumes "map_of ps ''ParsedDate'' = Some (JString s)"
  shows "date_in_range tza (Some ds) (JObject ps) =
     Inr (tv_ge (parse_date_string tza s) (tv_index ds 0) \<and>
          tv_le (parse_date_string tza s) (tv_index ds 1))"
  using assms by (simp add: date_in_range_def)

subsection \<open>Exceptions and the list operations\<close>

lemma filter_js_refines:
  "(\<forall>x \<in> set xs. p x = Inr (P x)) \<Longrightarrow> filter_js p xs = Inr (filter P xs)"
  by (induction xs) auto

lemma map_js_refines:
  "(\<forall>x \<in> set xs. f x = Inr (g x)) \<Longrightarrow> map_js f xs = Inr (map g xs)"
  by (induction xs) auto

lemma filter_js_Inl_iff:
  "(\<exists>e. filter_js p xs = Inl e) \<longleftrightarrow> (\<exists>x \<in> set xs. \<exists>e. p x = Inl e)"
  by (induction xs) (auto simp: bind_res_def split: sum.splits)

lemma map_js_Inl_iff:
  "(\<exists>e. map_js f xs = Inl e) \<longleftrightarrow> (\<exists>x \<in> set xs. \<exists>e. f x = Inl e)"
  by (induction xs) (auto simp: bind_res_def split: sum.splits)

lemma to_number_Inl: "to_number v = Inl e \<longleftrightarrow> e = TypeError \<and> poisoned v"
  using to_js_string_error(1) [of v] to_js_string_poisoned(1) [of v]
  by (cases v) (auto simp: object_to_primitive_def split: sum.splits)

lemma new_date_Inl_iff: "(\<exists>e. new_date tza v = Inl e) \<longleftrightarrow> poisoned v"
proof (cases v)
  case (JArray vs)
  then show ?thesis
    using to_js_string_error(1) [of v] to_js_string_poisoned(1) [of v]
    by (cases "to_js_string v") auto
qed (simp_all add: object_to_primitive_def)

lemma get_prop_Inr_iff: "(\<exists>u. get_prop v k = Inr u) \<longleftrightarrow> v \<noteq> JNull \<and> v \<noteq> JUndefined"
  by (cases v) auto

lemma mileage_cost_Inl_iff:
  "(\<exists>e. mileage_cost r k = Inl e) \<longleftrightarrow>
     r = JNull \<or> r = JUndefined \<or> (\<exists>v. get_prop r k = Inr v \<and> poisoned v)"
proof (cases "get_prop r k")
  case (Inl e)
  then show ?thesis using get_prop_error [of r k] by (auto simp: mileage_cost_def)
next
  case (Inr v)
  then have "r \<noteq> JNull \<and> r \<noteq> JUndefined" by auto
  moreover have "(\<exists>e. to_number v = Inl e) \<longleftrightarrow> poisoned v" by (simp add: to_number_Inl)
  ultimately show ?thesis using Inr by (cases "to_number v") (auto simp: mileage_cost_def)
qed

lemma date_in_range_Inl_iff:
  "(\<exists>e. date_in_range tza dates r = Inl e) \<longleftrightarrow>
     dates \<noteq> None \<and> (r = JNull \<or> r = JUndefined \<or> (\<exists>v. get_prop r ''ParsedDate'' = Inr v \<and> poisoned v))"
proof (cases "get_prop r ''ParsedDate''")
  case (Inl e)
  then show ?thesis using get_prop_error [of r "''ParsedDate''"]
    by (auto simp: date_in_range_def split: option.splits)
next
  case (Inr v)
  then have "r \<noteq> JNull \<and> r \<noteq> JUndefined" by auto
  moreover note new_date_Inl_iff [of tza v]
  ultimately show ?thesis using Inr
    by (cases "new_date tza v") (auto simp: date_in_range_def split: option.splits)
qed

lemma transform_row_Inl_iff:
  "(\<exists>e. transform_row r = Inl e) \<longleftrightarrow>
     r = JNull \<or> r = JUndefined \<or>
     (\<exists>k \<in> {''YMileageCost'', ''WMileageCost'', ''JMileageCost'', ''FMileageCost''}.
        \<exists>v. get_prop r k = Inr v \<and> poisoned v)"
proof -
  have "(\<exists>e. transform_row r = Inl e) \<longleftrightarrow>
     (\<exists>k \<in> {''YMileageCost'', ''WMileageCost'', ''JMileageCost'', ''FMileageCost''}.
        \<exists>e. mileage_cost r k = Inl e)"
    by (cases "mileage_cost r ''YMileageCost''"; cases "mileage_cost r ''WMileageCost''";
        cases "mileage_cost r ''JMileageCost''"; cases "mileage_cost r ''FMileageCost''")
      (simp_all add: transform_row_def)
  then show ?thesis by (auto simp: mileage_cost_Inl_iff)
qed

lemma filter_js_Inr_filter:
  "filter_js p xs = Inr ys \<Longrightarrow> ys = filter (\<lambda>x. p x = Inr True) xs"
  by (induction xs arbitrary: ys) (auto simp: bind_res_eq_Inr_iff)

lemma availability_rows_Inl_iff:
  "(\<exists>e. availability_rows tza dates (JArray rows) = Inl e) \<longleftrightarrow>
     (\<exists>r \<in> set rows. (\<exists>e. date_in_range tza dates r = Inl e) \<or>
        (date_in_range tza dates r = Inr True \<and> (\<exists>e. transform_row r = Inl e)))"
proof (cases "filter_js (date_in_range tza dates) rows")
  case (Inl e)
  then show ?thesis using filter_js_Inl_iff [of "date_in_range tza dates" rows]
    by (auto simp: availability_rows_def)
next
  case (Inr kept)
  have "\<forall>r \<in> set rows. \<exists>b. date_in_range tza dates r = Inr b"
    using filter_js_Inr [OF Inr] .
  moreover have "kept = filter (\<lambda>r. date_in_range tza dates r = Inr True) rows"
    using filter_js_Inr_filter [OF Inr] .
  ultimately show ?thesis using Inr map_js_Inl_iff [of transform_row kept]
    by (cases "map_js transform_row kept") (auto simp: availability_rows_def)
qed

lemma keys_set_prop_chain:
  "map fst (set_prop (set_prop (set_prop (set_prop ps a y) b w) c j) d f) =
     map fst ps @ filter (\<lambda>x. x \<notin> set (map fst ps)) [a, b, c, d]"
  if "distinct [a, b, c, d]"
  using that by (auto simp: keys_set_prop)

lemma nat_digits_ne_ParsedDate: "''ParsedDate'' \<noteq> nat_digits x"
proof
  assume "''ParsedDate'' = nat_digits x"
  then have "list_all is_digit ''ParsedDate''" using nat_digits_all_digits [of x] by simp
  then show False by (simp add: is_digit_def)
qed

lemma map_of_indices_ParsedDate: "map_of (map (\<lambda>i. (nat_digits i, f i)) xs) ''ParsedDate'' = None"
  by (auto simp: map_of_eq_None_iff nat_digits_ne_ParsedDate)

lemma array_index_ParsedDate: "array_index ''ParsedDate'' = None"
  by (simp add: array_index_def is_digit_def)

lemma transform_row_ParsedDate:
  assumes "transform_row r = Inr out"
  shows "get_prop out ''ParsedDate'' = get_prop r ''ParsedDate''"
proof -
  obtain ps y w j f where out: "out = JObject ps"
    and ps: "ps = set_prop (set_prop (set_prop (set_prop (own_enumerable r)
          ''YMileageCost'' y) ''WMileageCost'' w) ''JMileageCost'' j) ''FMileageCost'' f"
    and ok: "mileage_cost r ''YMileageCost'' = Inr y"
    using transform_row_object_keys [OF assms] by blast
  have nn: "r \<noteq> JNull \<and> r \<noteq> JUndefined" using ok by (auto simp: mileage_cost_def)
  have "map_of ps ''ParsedDate'' = map_of (own_enumerable r) ''ParsedDate''" by (simp add: ps)
  moreover have "get_prop r ''ParsedDate'' =
      Inr (case map_of (own_enumerable r) ''ParsedDate'' of Some v \<Rightarrow> v | None \<Rightarrow> JUndefined)"
    using nn by (cases r) (simp_all add: array_index_ParsedDate map_of_indices_ParsedDate)
  ultimately show ?thesis by (simp add: out)
qed

lemma date_in_range_cong:
  assumes "get_prop r ''ParsedDate'' = get_prop r' ''ParsedDate''"
  shows "date_in_range tza dates r = date_in_range tza dates r'"
  unfolding date_in_range_def assms ..


subsection \<open>The scenario rows evaluated\<close>

text \<open>Evaluation of the stage on these rows.\<close>

lemma spec_rows_dates:
  "parse_date_string tza ''2024-01-05'' = Some 1704412800000"
  "parse_date_string tza ''2024-02-01'' = Some 1706745600000"
  by (simp_all add: js_eval)

lemma spec_rows_transformed:
  "transform_row spec_row_jan = Inr spec_out_jan"
  "transform_row spec_row_feb = Inr spec_out_feb"
  by (simp_all add: js_eval spec_row_jan_def spec_row_feb_def spec_out_jan_def spec_out_feb_def)

lemma spec_rows_in_january:
  "date_in_range tza (Some spec_january) spec_row_jan = Inr True"
  "date_in_range tza (Some spec_january) spec_row_feb = Inr False"
  by (simp_all add: date_in_range_def spec_row_jan_def spec_row_feb_def spec_january_def
      spec_rows_dates tv_ge_def tv_le_def tv_index_def)

lemma spec_rows_undated:
  "availability_rows tza None (JArray [spec_row_jan, spec_row_feb]) =
     Inr (JArray [spec_out_jan, spec_out_feb])"
  by (simp add: availability_rows_def date_in_range_def spec_rows_transformed)

text \<open>
  The filter compares instants, not calendar days: a row stamped with a time later
  than midnight on the last day of the range is dropped, while the same day written as a
  date is kept.
\<close>

lemma datetime_on_end_day_dropped:
  "date_in_range tza (Some spec_january) (JObject [(''ParsedDate'', JString ''2024-01-31T10:00:00Z'')]) = Inr False \<and>
   date_in_range tza (Some spec_january) (JObject [(''ParsedDate'', JString ''2024-01-31'')]) = Inr True"
  by (simp add: date_in_range_def spec_january_def tv_ge_def tv_le_def tv_index_def js_eval)

subsection \<open>What the map callback writes, and what the stage returns\<close>

lemma mileage_cost_value:
  "mileage_cost r k = Inr v \<Longrightarrow> v = JUndefined \<or> (\<exists>n. v = JNumber n \<and> n \<noteq> NaN \<and> n \<noteq> Fin 0)"
  by (auto dest!: mileage_cost_form simp: js_or_number num_truthy_def split: if_splits)

lemma availability_rows_outputs:
  assumes "availability_rows tza dates body = Inr out"
  shows "\<exists>kept outs. out = JArray outs \<and> map_js transform_row kept = Inr outs \<and>
           (\<forall>x \<in> set outs. date_in_range tza dates x = Inr True)"
proof -
  obtain rows where body: "body = JArray rows"
    using assms by (cases body) (auto simp: availability_rows_def)
  obtain kept outs where f: "filter_js (date_in_range tza dates) rows = Inr kept"
    and m: "map_js transform_row kept = Inr outs" and out: "out = JArray outs"
    using assms by (auto simp: availability_rows_def body bind_res_eq_Inr_iff)
  have kept: "kept = filter (\<lambda>r. date_in_range tza dates r = Inr True) rows"
    using filter_js_Inr_filter [OF f] .
  have "\<forall>x \<in> set outs. date_in_range tza dates x = Inr True"
  proof
    fix x assume "x \<in> set outs"
    then obtain i where i: "i < length outs" "x = outs ! i" by (auto simp: in_set_conv_nth)
    have il: "i < length kept" using i map_js_length [OF m] by simp
    have "transform_row (kept ! i) = Inr x" using map_js_nth [OF m il] i by simp
    moreover have "date_in_range tza dates (kept ! i) = Inr True"
      using nth_mem [OF il] kept by auto
    ultimately show "date_in_range tza dates x = Inr True"
      using date_in_range_cong transform_row_ParsedDate by metis
  qed
  then show ?thesis using m out by blast
qed

lemma map_js_image:
  "map_js f xs = Inr ys \<Longrightarrow> y \<in> set ys \<Longrightarrow> \<exists>x \<in> set xs. f x = Inr y"
  using map_js_nth [of f xs ys] map_js_length [of f xs ys] by (metis in_set_conv_nth)

section \<open>Properties of the Availability stage\<close>

text \<open>
  C1. The date filter is an inclusive range test on the parsed date: a row whose
  \<open>ParsedDate\<close> is the string \<open>s\<close> is kept iff \<open>s\<close> parses to a time value \<open>t\<close>
  with \<open>dates[0] \<le> t \<le> dates[1]\<close>; an unparseable date drops the row.
\<close>

theorem date_filter_inclusive:
  assumes "map_of ps ''ParsedDate'' = Some (JString s)"
  shows "date_in_range tza (Some (Some lo # Some hi # rest)) (JObject ps) =
           Inr (case parse_date_string tza s of Some t \<Rightarrow> lo \<le> t \<and> t \<le> hi | None \<Rightarrow> False)"
  using assms by (simp add: date_in_range_def tv_ge_def tv_le_def tv_index_def split: option.splits)

theorem date_filter_inclusive_witness:
  "map_of [(''ParsedDate'', JString ''2024-01-31'')] ''ParsedDate'' = Some (JString ''2024-01-31'') \<and>
   date_in_range 0 (Some [Some 1704067200000, Some 1706659200000])
     (JObject [(''ParsedDate'', JString ''2024-01-31'')]) = Inr True"
proof -
  have "parse_date_string 0 ''2024-01-31'' = Some 1706659200000"
    by (simp add: js_eval)
  then show ?thesis
    using date_filter_inclusive [of "[(''ParsedDate'', JString ''2024-01-31'')]" "''2024-01-31''"
        0 1704067200000 1706659200000 "[]"]
    by simp
qed

text \<open>
  C2. Refinement of the spec's date range (section 4.2, step 3a) by the filter: for a row
  whose \<open>ParsedDate\<close> is a valid calendar date written \<open>YYYY-MM-DD\<close> and a range given
  by the Dates of two valid calendar days at midnight UTC, the row is kept exactly when its
  date lies between the two days in calendar order, both ends included.
\<close>

theorem date_filter_calendar:
  assumes "map_of ps ''ParsedDate'' = Some (JString (iso_date y m d))" and "y < 10000"
    and "valid_ymd (int y) m d" and "valid_ymd y1 m1 d1" and "valid_ymd y2 m2 d2"
  shows "date_in_range tza (Some [Some (utc_midnight y1 m1 d1), Some (utc_midnight y2 m2 d2)]) (JObject ps) =
           Inr ((y1, m1, d1) \<le> (int y, m, d) \<and> (int y, m, d) \<le> (y2, m2, d2))"
  using assms(1) iso_date_time_value [OF assms(2,3)]
    utc_midnight_le_iff [OF assms(4,3)] utc_midnight_le_iff [OF assms(3,5)]
  by (simp add: date_in_range_def tv_ge_def tv_le_def tv_index_def)

theorem date_filter_calendar_witness:
  "map_of [(''ParsedDate'', JString (iso_date 2024 1 31))] ''ParsedDate'' = Some (JString (iso_date 2024 1 31)) \<and>
   (2024::nat) < 10000 \<and> valid_ymd (int 2024) 1 31 \<and> valid_ymd 2024 1 1 \<and> valid_ymd 2024 1 31 \<and>
   date_in_range 0 (Some [Some (utc_midnight 2024 1 1), Some (utc_midnight 2024 1 31)])
     (JObject [(''ParsedDate'', JString (iso_date 2024 1 31))]) = Inr True"
proof -
  have v: "valid_ymd (int 2024) 1 31" "valid_ymd 2024 1 1" "valid_ymd 2024 1 31"
    by (simp_all add: valid_ymd_def month_lengths_def)
  show ?thesis
    using date_filter_calendar [of "[(''ParsedDate'', JString (iso_date 2024 1 31))]" 2024 1 31 2024 1 1 2024 1 31 0] v
    by simp
qed

text \<open>
  C3. A cost field holding a string is replaced by the Number the string denotes
  (StringToNumber) when that Number is truthy, and by \<open>undefined\<close> otherwise.
\<close>

theorem mileage_cost_of_string:
  assumes "map_of ps k = Some (JString s)"
  shows "mileage_cost (JObject ps) k =
           Inr (if num_truthy (string_to_number s) then JNumber (string_to_number s) else JUndefined)"
  using assms by (simp add: mileage_cost_def js_or_def)

theorem mileage_cost_of_string_witness:
  "map_of [(''YMileageCost'', JString ''N/A'')] ''YMileageCost'' = Some (JString ''N/A'') \<and>
   mileage_cost (JObject [(''YMileageCost'', JString ''N/A'')]) ''YMileageCost'' = Inr JUndefined"
  using mileage_cost_of_string [of "[(''YMileageCost'', JString ''N/A'')]" "''YMileageCost''" "''N/A''"]
  by (simp add: js_eval)

text \<open>
  C7. A cost given as the decimal digits of a positive integer \<open>n \<le> 2\<^sup>5\<^sup>3\<close> becomes
  exactly the Number \<open>n\<close>.
\<close>

theorem mileage_cost_decimal_integer:
  assumes "map_of ps k = Some (JString (nat_digits n))" and "0 < n" and "n \<le> 2 ^ 53"
  shows "mileage_cost (JObject ps) k = Inr (JNumber (Fin (of_nat n)))"
proof -
  have "string_to_number (nat_digits n) = Fin (of_nat n)"
    using string_to_number_digits [of "nat_digits n"] assms(3)
    by (simp add: nat_digits_all_digits round_binary64_of_nat)
  with assms(1,2) show ?thesis by (simp add: mileage_cost_object js_or_number num_truthy_def)
qed

theorem mileage_cost_decimal_integer_witness:
  "map_of [(''YMileageCost'', JString (nat_digits 12500))] ''YMileageCost'' = Some (JString (nat_digits 12500)) \<and>
   (0::nat) < 12500 \<and> (12500::nat) \<le> 2 ^ 53 \<and>
   mileage_cost (JObject [(''YMileageCost'', JString (nat_digits 12500))]) ''YMileageCost'' =
     Inr (JNumber (Fin 12500))"
  using mileage_cost_decimal_integer [of "[(''YMileageCost'', JString (nat_digits 12500))]"
      "''YMileageCost''" 12500]
  by simp

text \<open>
  C9. A cost given as an array holding one nonzero finite Number is kept as that Number:
  \<open>Number([x])\<close> joins the array with Number::toString and parses the string back,
  which gives \<open>x\<close> for every binary64 value \<open>m \<cdot> 2\<^sup>e\<close>, fractions, negative and
  subnormal values included.
\<close>

theorem mileage_cost_single_number_array:
  assumes "map_of ps k = Some (JArray [JNumber (Fin (of_int m * ipow 2 e))])"
    and "m \<noteq> 0" and "\<bar>m\<bar> < 2 ^ 53" and "-1074 \<le> e" and "e \<le> 971"
  shows "mileage_cost (JObject ps) k = Inr (JNumber (Fin (of_int m * ipow 2 e)))"
proof -
  let ?x = "of_int m * ipow 2 e :: rat"
  have "to_js_string (JArray [JNumber (Fin ?x)]) = Inr (number_to_string (Fin ?x))" by simp
  moreover have "string_to_number (number_to_string (Fin ?x)) = Fin ?x"
    using number_to_string_roundtrip_abs binary64_abs_roundtrip [OF assms(2-5)] assms(2) by simp
  moreover have "?x \<noteq> 0" using assms(2) by simp
  ultimately show ?thesis using assms(1) by (simp add: mileage_cost_object js_or_number num_truthy_def)
qed

theorem mileage_cost_single_number_array_witness:
  "map_of [(''YMileageCost'', JArray [JNumber (Fin (of_int 25 * ipow 2 (-1)))])] ''YMileageCost'' =
     Some (JArray [JNumber (Fin (of_int 25 * ipow 2 (-1)))]) \<and> (25::int) \<noteq> 0 \<and> \<bar>25::int\<bar> < 2 ^ 53 \<and>
   (-1074::int) \<le> -1 \<and> (-1::int) \<le> 971 \<and>
   mileage_cost (JObject [(''YMileageCost'', JArray [JNumber (Fin (of_int 25 * ipow 2 (-1)))])]) ''YMileageCost'' =
     Inr (JNumber (Fin (of_int 25 * ipow 2 (-1))))"
  using mileage_cost_single_number_array [of "[(''YMileageCost'', JArray [JNumber (Fin (of_int 25 * ipow 2 (-1)))])]"
      "''YMileageCost''" 25 "-1"]
  by simp

text \<open>
  C5. After the map callback every cost field of the row is present and is either
  \<open>undefined\<close> or a Number that is neither NaN nor zero.
\<close>

theorem transform_row_cost_fields:
  assumes "transform_row r = Inr r'"
    and "k \<in> {''YMileageCost'', ''WMileageCost'', ''JMileageCost'', ''FMileageCost''}"
  shows "\<exists>ps v. r' = JObject ps \<and> map_of ps k = Some v \<and>
           (v = JUndefined \<or> (\<exists>n. v = JNumber n \<and> n \<noteq> NaN \<and> n \<noteq> Fin 0))"
  using assms by (auto simp: transform_row_def bind_res_eq_Inr_iff dest: mileage_cost_value)

theorem transform_row_cost_fields_witness:
  "transform_row spec_row_jan = Inr spec_out_jan \<and>
   ''YMileageCost'' \<in> {''YMileageCost'', ''WMileageCost'', ''JMileageCost'', ''FMileageCost''} \<and>
   (\<exists>ps v. spec_out_jan = JObject ps \<and> map_of ps ''YMileageCost'' = Some v \<and>
      (v = JUndefined \<or> (\<exists>n. v = JNumber n \<and> n \<noteq> NaN \<and> n \<noteq> Fin 0)))"
  using transform_row_cost_fields [of spec_row_jan spec_out_jan "''YMileageCost''"]
  by (simp add: spec_rows_transformed)

text \<open>
  C6. The map callback passes every other field through (spec, section 4.2, step 3c):
  a field other than the four costs keeps its value, no field is dropped, the fields keep
  their order, and a missing cost field is appended after them.
\<close>

theorem transform_row_keeps_fields:
  assumes "transform_row (JObject ps) = Inr out"
    and "k \<notin> {''YMileageCost'', ''WMileageCost'', ''JMileageCost'', ''FMileageCost''}"
  shows "\<exists>ps'. out = JObject ps' \<and> map_of ps' k = map_of ps k \<and>
     map fst ps' = map fst ps @
       filter (\<lambda>x. x \<notin> set (map fst ps)) [''YMileageCost'', ''WMileageCost'', ''JMileageCost'', ''FMileageCost'']"
proof -
  obtain ps' y w j f where out: "out = JObject ps'"
    and ps': "ps' = set_prop (set_prop (set_prop (set_prop ps
          ''YMileageCost'' y) ''WMileageCost'' w) ''JMileageCost'' j) ''FMileageCost'' f"
    using transform_row_object_keys [OF assms(1)] by auto
  have "map_of ps' k = map_of ps k" using assms(2) by (simp add: ps')
  moreover have "map fst ps' = map fst ps @
       filter (\<lambda>x. x \<notin> set (map fst ps)) [''YMileageCost'', ''WMileageCost'', ''JMileageCost'', ''FMileageCost'']"
    unfolding ps' by (rule keys_set_prop_chain) simp
  ultimately show ?thesis using out by blast
qed

theorem transform_row_keeps_fields_witness:
  "transform_row (JObject [(''ParsedDate'', JString ''2024-01-05''), (''YMileageCost'', JString ''12500'')]) =
     Inr spec_out_jan \<and>
   ''ParsedDate'' \<notin> {''YMileageCost'', ''WMileageCost'', ''JMileageCost'', ''FMileageCost''} \<and>
   map_of [(''ParsedDate'', JString ''2024-01-05''), (''YMileageCost'', JNumber (Fin 12500)),
     (''WMileageCost'', JUndefined), (''JMileageCost'', JUndefined), (''FMileageCost'', JUndefined)]
     ''ParsedDate'' = Some (JString ''2024-01-05'')"
proof -
  have t: "transform_row (JObject [(''ParsedDate'', JString ''2024-01-05''), (''YMileageCost'', JString ''12500'')]) =
     Inr spec_out_jan"
    using spec_rows_transformed(1) by (simp add: spec_row_jan_def)
  have k: "''ParsedDate'' \<notin> {''YMileageCost'', ''WMileageCost'', ''JMileageCost'', ''FMileageCost''}" by simp
  show ?thesis
    using transform_row_keeps_fields [OF t k] t k by (auto simp: spec_out_jan_def)
qed

text \<open>
  C10. Without \<open>dates\<close> no row is dropped: a successful stage returns as many rows as
  the response has.
\<close>

theorem no_dates_keeps_every_row:
  assumes "availability_rows tza None (JArray rows) = Inr out"
  shows "\<exists>outs. out = JArray outs \<and> length outs = length rows"
proof -
  have "filter_js (date_in_range tza None) rows = Inr rows"
    by (rule filter_js_all) (simp add: date_in_range_def)
  with assms show ?thesis
    by (auto simp: availability_rows_def bind_res_eq_Inr_iff dest: map_js_length)
qed

theorem no_dates_keeps_every_row_witness:
  "availability_rows 0 None (JArray [spec_row_jan, spec_row_feb]) = Inr (JArray [spec_out_jan, spec_out_feb]) \<and>
   (\<exists>outs. JArray [spec_out_jan, spec_out_feb] = JArray outs \<and> length outs = 2)"
  using no_dates_keeps_every_row [of 0 "[spec_row_jan, spec_row_feb]" "JArray [spec_out_jan, spec_out_feb]"]
    spec_rows_undated [of 0]
  by simp

text \<open>
  C12. Idempotence holds for every value of \<open>dates\<close>, not only without it: the map
  callback leaves \<open>ParsedDate\<close> as it is, so every output row passes the same filter
  again, and the cost fields are already converted.
\<close>

theorem availability_rows_idempotent_dates:
  assumes "availability_rows tza dates body = Inr out"
  shows "availability_rows tza dates out = Inr out"
proof -
  obtain kept outs where out: "out = JArray outs" and m: "map_js transform_row kept = Inr outs"
    and pass: "\<forall>x \<in> set outs. date_in_range tza dates x = Inr True"
    using availability_rows_outputs [OF assms] by blast
  have "filter_js (date_in_range tza dates) outs = Inr outs" using pass by (rule filter_js_all)
  moreover have "map_js transform_row outs = Inr outs"
    using m transform_row_idem by (rule map_js_fixpoint)
  ultimately show ?thesis by (simp add: availability_rows_def out)
qed

theorem availability_rows_idempotent_dates_witness:
  "availability_rows 0 (Some spec_january) (JArray [spec_row_jan, spec_row_feb]) = Inr (JArray [spec_out_jan]) \<and>
   availability_rows 0 (Some spec_january) (JArray [spec_out_jan]) = Inr (JArray [spec_out_jan])"
proof -
  have "availability_rows 0 (Some spec_january) (JArray [spec_row_jan, spec_row_feb]) = Inr (JArray [spec_out_jan])"
    by (simp add: availability_rows_def spec_rows_in_january spec_rows_transformed)
  then show ?thesis using availability_rows_idempotent_dates [of 0 "Some spec_january"] by blast
qed

text \<open>
  C13. Exactly when the stage throws: some row is \<open>null\<close> or \<open>undefined\<close>, or a date
  filter is active and a row's \<open>ParsedDate\<close> has no primitive value, or a row the filter
  keeps has a cost field with no primitive value (an object with an own \<open>toString\<close>,
  or an array holding one). Every other response is transformed without an exception.
\<close>

theorem availability_rows_fails_iff:
  "(\<exists>e. availability_rows tza dates (JArray rows) = Inl e) \<longleftrightarrow>
     (\<exists>r \<in> set rows. r = JNull \<or> r = JUndefined \<or>
        (dates \<noteq> None \<and> (\<exists>v. get_prop r ''ParsedDate'' = Inr v \<and> poisoned v)) \<or>
        (date_in_range tza dates r = Inr True \<and>
         (\<exists>k \<in> {''YMileageCost'', ''WMileageCost'', ''JMileageCost'', ''FMileageCost''}.
            \<exists>v. get_prop r k = Inr v \<and> poisoned v)))"
proof -
  have nul: "date_in_range tza dates r = Inr True" if "dates = None" for r
    using that by (simp add: date_in_range_def)
  have row: "((\<exists>e. date_in_range tza dates r = Inl e) \<or>
      (date_in_range tza dates r = Inr True \<and> (\<exists>e. transform_row r = Inl e))) \<longleftrightarrow>
    (r = JNull \<or> r = JUndefined \<or>
        (dates \<noteq> None \<and> (\<exists>v. get_prop r ''ParsedDate'' = Inr v \<and> poisoned v)) \<or>
        (date_in_range tza dates r = Inr True \<and>
         (\<exists>k \<in> {''YMileageCost'', ''WMileageCost'', ''JMileageCost'', ''FMileageCost''}.
            \<exists>v. get_prop r k = Inr v \<and> poisoned v)))" for r
    unfolding date_in_range_Inl_iff transform_row_Inl_iff
    using nul [of r] by (cases dates) auto
  show ?thesis
    by (simp only: availability_rows_Inl_iff row)
qed

theorem availability_rows_fails_iff_witness:
  "(\<exists>e. availability_rows 0 (Some spec_january) (JArray [spec_row_jan, JNull]) = Inl e) \<and>
   (\<exists>r \<in> set [spec_row_jan, JNull]. r = JNull \<or> r = JUndefined \<or>
      (Some spec_january \<noteq> None \<and> (\<exists>v. get_prop r ''ParsedDate'' = Inr v \<and> poisoned v)) \<or>
      (date_in_range 0 (Some spec_january) r = Inr True \<and>
       (\<exists>k \<in> {''YMileageCost'', ''WMileageCost'', ''JMileageCost'', ''FMileageCost''}.
          \<exists>v. get_prop r k = Inr v \<and> poisoned v)))"
proof -
  have r: "\<exists>r \<in> set [spec_row_jan, JNull]. r = JNull \<or> r = JUndefined \<or>
      (Some spec_january \<noteq> None \<and> (\<exists>v. get_prop r ''ParsedDate'' = Inr v \<and> poisoned v)) \<or>
      (date_in_range 0 (Some spec_january) r = Inr True \<and>
       (\<exists>k \<in> {''YMileageCost'', ''WMileageCost'', ''JMileageCost'', ''FMileageCost''}.
          \<exists>v. get_prop r k = Inr v \<and> poisoned v))"
  proof
    show "JNull \<in> set [spec_row_jan, JNull]" by simp
  qed simp
  then show ?thesis
    by (simp only: availability_rows_fails_iff [of 0 "Some spec_january" "[spec_row_jan, JNull]"] r simp_thms)
qed

text \<open>
  C14. With a \<open>dates\<close> array of fewer than two Dates (empty, or one Date) no row is kept:
  the comparison with the missing \<open>dates[1]\<close> (\<open>undefined\<close>, NaN) is false. The spec
  does not say what a one-sided or empty range means.
\<close>

theorem short_dates_keep_nothing:
  assumes "length ds < 2"
  shows "date_in_range tza (Some ds) r \<noteq> Inr True"
  using assms
  by (auto simp: date_in_range_def bind_res_eq_Inr_iff tv_index_def tv_le_def split: option.splits)

theorem short_dates_keep_nothing_witness:
  "length [Some (1704067200000::int)] < 2 \<and>
   date_in_range 0 (Some [Some 1704067200000]) spec_row_jan = Inr False"
proof -
  have "date_in_range 0 (Some [Some 1704067200000]) spec_row_jan \<noteq> Inr True"
    by (rule short_dates_keep_nothing) simp
  moreover have "\<exists>b. date_in_range 0 (Some [Some 1704067200000]) spec_row_jan = Inr b"
    by (simp add: date_in_range_def spec_row_jan_def spec_rows_dates)
  ultimately show ?thesis by auto
qed


text \<open>
  C4. Each cost field of a transformed row holds the conversion of the same field of the
  input row: \<open>YMileageCost\<close> is computed from \<open>route.YMileageCost\<close>, and so on for
  \<open>W\<close>, \<open>J\<close> and \<open>F\<close> (lines 106 to 109).
\<close>

theorem transform_row_cost_own_key:
  assumes "transform_row r = Inr r'"
    and "k \<in> {''YMileageCost'', ''WMileageCost'', ''JMileageCost'', ''FMileageCost''}"
  shows "get_prop r' k = mileage_cost r k"
  using assms by (auto simp: transform_row_def bind_res_eq_Inr_iff)

theorem transform_row_cost_own_key_witness:
  "transform_row (JObject [(''YMileageCost'', JString ''12''), (''WMileageCost'', JString ''34'')]) =
     Inr (JObject [(''YMileageCost'', JNumber (Fin 12)), (''WMileageCost'', JNumber (Fin 34)),
       (''JMileageCost'', JUndefined), (''FMileageCost'', JUndefined)]) \<and>
   ''WMileageCost'' \<in> {''YMileageCost'', ''WMileageCost'', ''JMileageCost'', ''FMileageCost''} \<and>
   get_prop (JObject [(''YMileageCost'', JNumber (Fin 12)), (''WMileageCost'', JNumber (Fin 34)),
       (''JMileageCost'', JUndefined), (''FMileageCost'', JUndefined)]) ''WMileageCost'' =
     mileage_cost (JObject [(''YMileageCost'', JString ''12''), (''WMileageCost'', JString ''34'')]) ''WMileageCost''"
proof -
  have t: "transform_row (JObject [(''YMileageCost'', JString ''12''), (''WMileageCost'', JString ''34'')]) =
     Inr (JObject [(''YMileageCost'', JNumber (Fin 12)), (''WMileageCost'', JNumber (Fin 34)),
       (''JMileageCost'', JUndefined), (''FMileageCost'', JUndefined)])"
    by (simp add: js_eval)
  show ?thesis using transform_row_cost_own_key [OF t, of "''WMileageCost''"] t by simp
qed

text \<open>
  C8. A cost field holding a Number keeps it whenever it is truthy, that is for every
  Number other than NaN and zero: negative values and the infinities are kept as they
  are, NaN and zero become \<open>undefined\<close>.
\<close>

theorem mileage_cost_number:
  assumes "map_of ps k = Some (JNumber x)"
  shows "mileage_cost (JObject ps) k = Inr (if x = NaN \<or> x = Fin 0 then JUndefined else JNumber x)"
  using assms by (cases x) (auto simp: mileage_cost_def js_or_def num_truthy_def)

theorem mileage_cost_number_witness:
  "map_of [(''YMileageCost'', JNumber (Fin (-5)))] ''YMileageCost'' = Some (JNumber (Fin (-5))) \<and>
   mileage_cost (JObject [(''YMileageCost'', JNumber (Fin (-5)))]) ''YMileageCost'' = Inr (JNumber (Fin (-5)))"
  using mileage_cost_number [of "[(''YMileageCost'', JNumber (Fin (-5)))]" "''YMileageCost''" "Fin (-5)"]
  by simp

text \<open>
  C11. The invariant of the stage's output (spec, section 3): every row the stage returns
  passes the date filter, and each of its four cost fields is \<open>undefined\<close> or a Number
  that is neither NaN nor zero.
\<close>

theorem availability_rows_output:
  assumes "availability_rows tza dates body = Inr out"
  shows "\<exists>outs. out = JArray outs \<and>
    (\<forall>row \<in> set outs. date_in_range tza dates row = Inr True \<and>
       (\<forall>k \<in> {''YMileageCost'', ''WMileageCost'', ''JMileageCost'', ''FMileageCost''}.
          get_prop row k = Inr JUndefined \<or> (\<exists>n. get_prop row k = Inr (JNumber n) \<and> n \<noteq> NaN \<and> n \<noteq> Fin 0)))"
proof -
  obtain kept outs where out: "out = JArray outs" and m: "map_js transform_row kept = Inr outs"
    and pass: "\<forall>x \<in> set outs. date_in_range tza dates x = Inr True"
    using availability_rows_outputs [OF assms] by blast
  have "get_prop row k = Inr JUndefined \<or> (\<exists>n. get_prop row k = Inr (JNumber n) \<and> n \<noteq> NaN \<and> n \<noteq> Fin 0)"
    if row: "row \<in> set outs" and k: "k \<in> {''YMileageCost'', ''WMileageCost'', ''JMileageCost'', ''FMileageCost''}" for row k
  proof -
    obtain r where "transform_row r = Inr row" using map_js_image [OF m row] by blast
    then obtain ps y w j f where o': "row = JObject ps"
      and ps: "ps = set_prop (set_prop (set_prop (set_prop (own_enumerable r)
          ''YMileageCost'' y) ''WMileageCost'' w) ''JMileageCost'' j) ''FMileageCost'' f"
      and c: "mileage_cost r ''YMileageCost'' = Inr y" "mileage_cost r ''WMileageCost'' = Inr w"
        "mileage_cost r ''JMileageCost'' = Inr j" "mileage_cost r ''FMileageCost'' = Inr f"
      using transform_row_object_keys by blast
    show ?thesis
      using k mileage_cost_value [OF c(1)] mileage_cost_value [OF c(2)] mileage_cost_value [OF c(3)]
        mileage_cost_value [OF c(4)]
      by (auto simp: o' ps)
  qed
  then show ?thesis using out pass by blast
qed

theorem availability_rows_output_witness:
  "availability_rows 0 (Some spec_january) (JArray [spec_row_jan, spec_row_feb]) = Inr (JArray [spec_out_jan]) \<and>
   (\<exists>outs. JArray [spec_out_jan] = JArray outs \<and>
    (\<forall>row \<in> set outs. date_in_range 0 (Some spec_january) row = Inr True \<and>
       (\<forall>k \<in> {''YMileageCost'', ''WMileageCost'', ''JMileageCost'', ''FMileageCost''}.
          get_prop row k = Inr JUndefined \<or> (\<exists>n. get_prop row k = Inr (JNumber n) \<and> n \<noteq> NaN \<and> n \<noteq> Fin 0))))"
proof -
  have "availability_rows 0 (Some spec_january) (JArray [spec_row_jan, spec_row_feb]) = Inr (JArray [spec_out_jan])"
    by (simp add: availability_rows_def spec_rows_in_january spec_rows_transformed)
  then show ?thesis using availability_rows_output [of 0 "Some spec_january"] by blast
qed




end
