(* ===== verification/Invocation.thy ===== *)
theory Invocation
  imports Routes Availability
begin

section \<open>An invocation as a sequence of steps\<close>

text \<open>
  Both \<open>execute\<close> functions of \<open>src/pack.ts\<close> are \<open>async\<close>: they build one request,
  \<open>await context.fetcher.fetch(request)\<close> (lines 34 and 95) and, when the promise settles,
  run the rest synchronously and return (lines 35 and 96 to 112). The host runs the
  fetch; its outcome, a response or an error, is chosen by the environment. An
  invocation is therefore a state machine with three phases: started, waiting on the
  fetch, finished with a result; the state also records the requests sent so far.
  The machine is shared by the two formulas, which differ only in the request and in the
  continuation after the \<open>await\<close>.
\<close>

datatype phase = Started | Waiting | Finished "jsval js_result"

record invocation =
  phase :: phase
  sent :: "fetch_request list"

definition start_invocation :: invocation where
  "start_invocation = \<lparr>phase = Started, sent = []\<rparr>"

text \<open>\<open>issue\<close> is the call of \<open>fetch\<close> up to the \<open>await\<close>; \<open>resume\<close> is the settling of
  the promise with any outcome \<open>r\<close>: a rejection propagates as the invocation's error, a
  response goes to the continuation \<open>k\<close>.\<close>

inductive exec_step ::
  "fetch_request \<Rightarrow> (fetch_response \<Rightarrow> jsval js_result) \<Rightarrow> invocation \<Rightarrow> invocation \<Rightarrow> bool"
  for req k where
  issue: "phase s = Started \<Longrightarrow> exec_step req k s \<lparr>phase = Waiting, sent = sent s @ [req]\<rparr>"
| resume: "phase s = Waiting \<Longrightarrow> exec_step req k s \<lparr>phase = Finished (bind_res r k), sent = sent s\<rparr>"

inductive_cases exec_step_Started: "exec_step req k \<lparr>phase = Started, sent = xs\<rparr> t"
inductive_cases exec_step_Waiting: "exec_step req k \<lparr>phase = Waiting, sent = xs\<rparr> t"
inductive_cases exec_step_Finished: "exec_step req k \<lparr>phase = Finished r, sent = xs\<rparr> t"

inductive reachable_inv ::
  "fetch_request \<Rightarrow> (fetch_response \<Rightarrow> jsval js_result) \<Rightarrow> invocation \<Rightarrow> bool"
  for req k where
  start: "reachable_inv req k start_invocation"
| step: "reachable_inv req k s \<Longrightarrow> exec_step req k s t \<Longrightarrow> reachable_inv req k t"

fun trace_from ::
  "fetch_request \<Rightarrow> (fetch_response \<Rightarrow> jsval js_result) \<Rightarrow> invocation \<Rightarrow> invocation list \<Rightarrow> bool" where
  "trace_from req k s [] = True"
| "trace_from req k s (t # ts) = (exec_step req k s t \<and> trace_from req k t ts)"

text \<open>The two formulas as instances: request and continuation of each \<open>execute\<close>.\<close>

definition routes_continuation :: "fetch_response \<Rightarrow> jsval js_result" where
  "routes_continuation resp = Inr (resp_body resp)"

definition availability_continuation ::
  "int \<Rightarrow> time_value list option \<Rightarrow> fetch_response \<Rightarrow> jsval js_result" where
  "availability_continuation tza dates resp = availability_rows tza dates (resp_body resp)"

fun phase_rank :: "phase \<Rightarrow> nat" where
  "phase_rank Started = 2"
| "phase_rank Waiting = 1"
| "phase_rank (Finished r) = 0"

definition inv_ok :: "fetch_request \<Rightarrow> invocation \<Rightarrow> bool" where
  "inv_ok req s \<longleftrightarrow> (if phase s = Started then sent s = [] else sent s = [req])"

subsection \<open>Facts\<close>

lemma exec_step_rank: "exec_step req k s t \<Longrightarrow> phase_rank (phase t) < phase_rank (phase s)"
  by (induction rule: exec_step.induct) simp_all

lemma exec_step_inv_ok: "exec_step req k s t \<Longrightarrow> inv_ok req s \<Longrightarrow> inv_ok req t"
  by (induction rule: exec_step.induct) (simp_all add: inv_ok_def)

lemma reachable_inv_ok: "reachable_inv req k s \<Longrightarrow> inv_ok req s"
proof (induction rule: reachable_inv.induct)
  case start
  show ?case by (simp add: inv_ok_def start_invocation_def)
next
  case (step s t)
  then show ?case by (blast intro: exec_step_inv_ok)
qed

lemma exec_step_progress:
  "(\<exists>t. exec_step req k s t) \<longleftrightarrow> (\<forall>r. phase s \<noteq> Finished r)"
proof (cases "phase s")
  case Started
  then show ?thesis using exec_step.issue [of s] by auto
next
  case Waiting
  then show ?thesis using exec_step.resume [of s] by auto
next
  case (Finished r)
  then show ?thesis by (auto elim: exec_step.cases)
qed

lemma trace_length_rank: "trace_from req k s ts \<Longrightarrow> length ts \<le> phase_rank (phase s)"
proof (induction ts arbitrary: s)
  case (Cons t ts)
  then have "exec_step req k s t" "trace_from req k t ts" by simp_all
  with Cons.IH show ?case using exec_step_rank by fastforce
qed simp

lemma trace_reachable:
  "reachable_inv req k s \<Longrightarrow> trace_from req k s ts \<Longrightarrow> t \<in> set ts \<Longrightarrow> reachable_inv req k t"
proof (induction ts arbitrary: s)
  case (Cons u ts)
  then have u: "reachable_inv req k u" by (auto intro: reachable_inv.step)
  with Cons show ?case by (cases "t = u") auto
qed simp

lemma exec_step_finished:
  "exec_step req k s t \<Longrightarrow> phase t = Finished res \<Longrightarrow> \<exists>r. res = bind_res r k"
  by (induction rule: exec_step.induct) auto

lemma reachable_finished:
  "reachable_inv req k s \<Longrightarrow> phase s = Finished res \<Longrightarrow> \<exists>r. res = bind_res r k"
proof (induction rule: reachable_inv.induct)
  case start
  then show ?case by (simp add: start_invocation_def)
next
  case (step s t)
  then show ?case by (blast dest: exec_step_finished)
qed

lemma run_to_finish:
  "reachable_inv req k \<lparr>phase = Finished (bind_res r k), sent = [req]\<rparr>"
proof -
  have "exec_step req k start_invocation \<lparr>phase = Waiting, sent = [req]\<rparr>"
    using exec_step.issue [of start_invocation req k] by (simp add: start_invocation_def)
  moreover have "exec_step req k \<lparr>phase = Waiting, sent = [req]\<rparr> \<lparr>phase = Finished (bind_res r k), sent = [req]\<rparr>"
    using exec_step.resume [of "\<lparr>phase = Waiting, sent = [req]\<rparr>" req k r] by simp
  ultimately show ?thesis by (blast intro: reachable_inv.intros)
qed

lemma exec_step_rank_eq: "exec_step req k s t \<Longrightarrow> Suc (phase_rank (phase t)) = phase_rank (phase s)"
  by (induction rule: exec_step.induct) simp_all

lemma trace_rank:
  "trace_from req k s ts \<Longrightarrow> phase_rank (phase (last (s # ts))) + length ts = phase_rank (phase s)"
proof (induction ts arbitrary: s)
  case (Cons t ts)
  then have "exec_step req k s t" "trace_from req k t ts" by simp_all
  with Cons.IH [of t] show ?case using exec_step_rank_eq [of req k s t] by simp
qed simp

lemma maximal_run:
  assumes "trace_from req k start_invocation ts" and "\<not> (\<exists>t. exec_step req k (last (start_invocation # ts)) t)"
  shows "length ts = 2 \<and> (\<exists>res. phase (last ts) = Finished res)"
proof -
  obtain res where f: "phase (last (start_invocation # ts)) = Finished res"
    using assms(2) exec_step_progress by blast
  then have "length ts = 2" using trace_rank [OF assms(1)] by (simp add: start_invocation_def)
  with f show ?thesis by (cases ts) auto
qed

lemma execute_outcomes:
  "(\<exists>s. reachable_inv req k s \<and> phase s = Finished res) \<longleftrightarrow> (\<exists>fetch :: fetcher. res = bind_res (fetch req) k)"
proof
  assume "\<exists>s. reachable_inv req k s \<and> phase s = Finished res"
  then obtain r where "res = bind_res r k" using reachable_finished by blast
  then show "\<exists>fetch :: fetcher. res = bind_res (fetch req) k" by (intro exI [of _ "\<lambda>_. r"]) simp
next
  assume "\<exists>fetch :: fetcher. res = bind_res (fetch req) k"
  then obtain fetch :: fetcher where "res = bind_res (fetch req) k" by blast
  then show "\<exists>s. reachable_inv req k s \<and> phase s = Finished res"
    using run_to_finish [of req k "fetch req"] by auto
qed

text \<open>
  One outbound request per invocation (spec, section 5): in every reachable state of
  either formula the requests sent are none before the \<open>await\<close> and exactly the formula's
  own request after it.
\<close>

theorem one_request_per_invocation:
  "(reachable_inv routes_request routes_continuation s \<longrightarrow>
      sent s = (if phase s = Started then [] else [routes_request])) \<and>
   (reachable_inv (availability_request source) (availability_continuation tza dates) s' \<longrightarrow>
      sent s' = (if phase s' = Started then [] else [availability_request source]))"
  using reachable_inv_ok [of routes_request routes_continuation s]
    reachable_inv_ok [of "availability_request source" "availability_continuation tza dates" s']
  by (simp add: inv_ok_def)

theorem one_request_per_invocation_witness:
  "reachable_inv routes_request routes_continuation \<lparr>phase = Finished (Inr JNull), sent = [routes_request]\<rparr> \<and>
   reachable_inv (availability_request ''united'') (availability_continuation 0 None)
     \<lparr>phase = Finished (Inl TypeError), sent = [availability_request ''united'']\<rparr> \<and>
   sent \<lparr>phase = Finished (Inr JNull), sent = [routes_request]\<rparr> = [routes_request] \<and>
   sent \<lparr>phase = Finished (Inl TypeError), sent = [availability_request ''united'']\<rparr> = [availability_request ''united'']"
proof -
  have a: "reachable_inv routes_request routes_continuation \<lparr>phase = Finished (Inr JNull), sent = [routes_request]\<rparr>"
    using run_to_finish [of routes_request routes_continuation "Inr \<lparr>resp_status = 200, resp_body = JNull\<rparr>"]
    by (simp add: routes_continuation_def)
  have b: "reachable_inv (availability_request ''united'') (availability_continuation 0 None)
     \<lparr>phase = Finished (Inl TypeError), sent = [availability_request ''united'']\<rparr>"
    using run_to_finish [of "availability_request ''united''" "availability_continuation 0 None" "Inl TypeError"]
    by simp
  show ?thesis
    using one_request_per_invocation [of "\<lparr>phase = Finished (Inr JNull), sent = [routes_request]\<rparr>" "''united''" 0 None
        "\<lparr>phase = Finished (Inl TypeError), sent = [availability_request ''united'']\<rparr>"] a b
    by simp
qed

text \<open>
  Every invocation completes: a run of either formula that cannot be extended has
  exactly two steps (the call and the settling of the fetch) and ends finished, with a
  result or an error; no run is longer.
\<close>

theorem invocation_completes:
  "(trace_from routes_request routes_continuation start_invocation ts \<longrightarrow>
      length ts \<le> 2 \<and>
      ((\<nexists>t. exec_step routes_request routes_continuation (last (start_invocation # ts)) t) \<longrightarrow>
         length ts = 2 \<and> (\<exists>res. phase (last ts) = Finished res))) \<and>
   (trace_from (availability_request source) (availability_continuation tza dates) start_invocation us \<longrightarrow>
      length us \<le> 2 \<and>
      ((\<nexists>t. exec_step (availability_request source) (availability_continuation tza dates)
            (last (start_invocation # us)) t) \<longrightarrow>
         length us = 2 \<and> (\<exists>res. phase (last us) = Finished res)))"
  using trace_length_rank [of routes_request routes_continuation start_invocation ts]
    trace_length_rank [of "availability_request source" "availability_continuation tza dates" start_invocation us]
    maximal_run [of routes_request routes_continuation ts]
    maximal_run [of "availability_request source" "availability_continuation tza dates" us]
  by (simp add: start_invocation_def)

theorem invocation_completes_witness:
  "trace_from routes_request routes_continuation start_invocation
     [\<lparr>phase = Waiting, sent = [routes_request]\<rparr>, \<lparr>phase = Finished (Inr JNull), sent = [routes_request]\<rparr>] \<and>
   (\<nexists>t. exec_step routes_request routes_continuation \<lparr>phase = Finished (Inr JNull), sent = [routes_request]\<rparr> t) \<and>
   trace_from (availability_request ''delta'') (availability_continuation 0 None) start_invocation
     [\<lparr>phase = Waiting, sent = [availability_request ''delta'']\<rparr>,
      \<lparr>phase = Finished (Inl (FetchFailed NetworkError)), sent = [availability_request ''delta'']\<rparr>] \<and>
   (\<nexists>t. exec_step (availability_request ''delta'') (availability_continuation 0 None)
      \<lparr>phase = Finished (Inl (FetchFailed NetworkError)), sent = [availability_request ''delta'']\<rparr> t) \<and>
   (\<exists>res. phase \<lparr>phase = Finished (Inr JNull), sent = [routes_request]\<rparr> = Finished res)"
proof -
  have r1: "exec_step routes_request routes_continuation start_invocation \<lparr>phase = Waiting, sent = [routes_request]\<rparr>"
    using exec_step.issue [of start_invocation] by (simp add: start_invocation_def)
  have r2: "exec_step routes_request routes_continuation \<lparr>phase = Waiting, sent = [routes_request]\<rparr>
      \<lparr>phase = Finished (Inr JNull), sent = [routes_request]\<rparr>"
    using exec_step.resume [of "\<lparr>phase = Waiting, sent = [routes_request]\<rparr>" routes_request routes_continuation
        "Inr \<lparr>resp_status = 200, resp_body = JNull\<rparr>"]
    by (simp add: routes_continuation_def)
  have a1: "exec_step (availability_request ''delta'') (availability_continuation 0 None) start_invocation
      \<lparr>phase = Waiting, sent = [availability_request ''delta'']\<rparr>"
    using exec_step.issue [of start_invocation] by (simp add: start_invocation_def)
  have a2: "exec_step (availability_request ''delta'') (availability_continuation 0 None)
      \<lparr>phase = Waiting, sent = [availability_request ''delta'']\<rparr>
      \<lparr>phase = Finished (Inl (FetchFailed NetworkError)), sent = [availability_request ''delta'']\<rparr>"
    using exec_step.resume [of "\<lparr>phase = Waiting, sent = [availability_request ''delta'']\<rparr>"
        "availability_request ''delta''" "availability_continuation 0 None" "Inl (FetchFailed NetworkError)"]
    by simp
  have stuck: "\<nexists>t. exec_step req k \<lparr>phase = Finished res, sent = xs\<rparr> t" for req k res xs
    using exec_step_progress [of req k "\<lparr>phase = Finished res, sent = xs\<rparr>"] by auto
  show ?thesis
    using invocation_completes [of "[\<lparr>phase = Waiting, sent = [routes_request]\<rparr>,
        \<lparr>phase = Finished (Inr JNull), sent = [routes_request]\<rparr>]"] r1 r2 a1 a2 stuck
    by simp
qed

text \<open>
  Refinement of the functional model by the step semantics: the results an
  invocation can finish with are exactly the values of \<open>routes_execute\<close> and
  \<open>availability_execute\<close> over all fetchers, so the functional \<open>execute\<close> loses no
  outcome of the asynchronous one and adds none.
\<close>

theorem execute_refines_steps:
  "((\<exists>s. reachable_inv routes_request routes_continuation s \<and> phase s = Finished res) \<longleftrightarrow>
      (\<exists>fetch. routes_execute fetch = res)) \<and>
   ((\<exists>s. reachable_inv (availability_request source) (availability_continuation tza dates) s \<and>
        phase s = Finished res') \<longleftrightarrow>
      (\<exists>fetch. availability_execute fetch tza source dates = res'))"
proof -
  have "routes_execute fetch = bind_res (fetch routes_request) routes_continuation" for fetch
    by (simp add: routes_execute_def routes_continuation_def [abs_def])
  moreover have "availability_execute fetch tza source dates =
      bind_res (fetch (availability_request source)) (availability_continuation tza dates)" for fetch
    by (simp add: availability_execute_def availability_continuation_def [abs_def])
  ultimately show ?thesis
    using execute_outcomes [of routes_request routes_continuation res]
      execute_outcomes [of "availability_request source" "availability_continuation tza dates" res']
    by (metis (no_types, lifting))
qed

end
