(* ===== verification/Pack.thy ===== *)
theory Pack
  imports Schema Routes Availability
begin

section \<open>The pack: registration with the host and invocation of its formulas\<close>

text \<open>
  \<open>src/pack.ts\<close> builds one pack value: \<open>coda.newPack()\<close> (line 3), one network domain
  (line 5) and two sync tables (lines 24 to 38 and 40 to 115), each with a name, an
  identity name, a row schema and a formula with its parameters and its \<open>execute\<close>. The
  host reads this value: it invokes a table's formula only with arguments that conform
  to the declared parameters, and it hands \<open>execute\<close> a fetcher that refuses every
  request to a host outside the declared network domains and their subdomains. The
  SDK's builder (\<open>newPack\<close>, \<open>addNetworkDomain\<close>, \<open>addSyncTable\<close>) and the host's
  checks are outside \<open>src/\<close> and are modelled from their documented behaviour; the
  declarations themselves are the code's.
\<close>

subsection \<open>Declarations\<close>

datatype parameter_type = StringParameter | DateArrayParameter

record param_decl =
  param_type :: parameter_type
  param_name :: string
  param_description :: string
  param_autocomplete :: "string list"
  param_optional :: bool

text \<open>An argument the host passes for a parameter: a string, or an array of Dates.\<close>

datatype param_value = StringArg string | DateArrayArg "time_value list"

record formula_decl =
  formula_name :: string
  formula_description :: string
  formula_params :: "param_decl list"
  formula_execute :: "param_value list \<Rightarrow> int \<Rightarrow> fetcher \<Rightarrow> jsval js_result"

record sync_table_decl =
  table_name :: string
  identity_name :: string
  table_schema :: object_schema
  table_formula :: formula_decl

record pack_decl =
  network_domains :: "string list"
  sync_tables :: "sync_table_decl list"

subsection \<open>The SDK's pack builder\<close>

definition new_pack :: pack_decl where
  "new_pack = \<lparr>network_domains = [], sync_tables = []\<rparr>"

definition add_network_domain :: "string \<Rightarrow> pack_decl \<Rightarrow> pack_decl" where
  "add_network_domain d p = p\<lparr>network_domains := network_domains p @ [d]\<rparr>"

definition add_sync_table :: "sync_table_decl \<Rightarrow> pack_decl \<Rightarrow> pack_decl" where
  "add_sync_table t p = p\<lparr>sync_tables := sync_tables p @ [t]\<rparr>"

subsection \<open>The seats.aero pack\<close>

text \<open>The two \<open>execute\<close> functions as the host calls them, with the argument array and
  the context (its time zone and fetcher). \<open>Routes\<close> ignores its arguments (\<open>_\<close>);
  \<open>Availability\<close> destructures \<open>[source, dates]\<close>, a missing \<open>dates\<close> being
  \<open>undefined\<close>. An argument list that does not start with a string is never passed
  (\<open>invoke_sync_table\<close> checks the arguments first); that branch is an error.\<close>

definition routes_formula_execute :: "param_value list \<Rightarrow> int \<Rightarrow> fetcher \<Rightarrow> jsval js_result" where
  "routes_formula_execute args tza fetch = routes_execute fetch"

definition availability_formula_execute :: "param_value list \<Rightarrow> int \<Rightarrow> fetcher \<Rightarrow> jsval js_result" where
  "availability_formula_execute args tza fetch =
     (case args of
        StringArg source # rest \<Rightarrow>
          availability_execute fetch tza source
            (case rest of DateArrayArg dates # _ \<Rightarrow> Some dates | _ \<Rightarrow> None)
      | _ \<Rightarrow> Inl TypeError)"

definition routes_table :: sync_table_decl where
  "routes_table =
     \<lparr>table_name = ''Routes'', identity_name = ''Route'', table_schema = route_schema,
      table_formula =
        \<lparr>formula_name = ''Routes'', formula_description = ''Routes'', formula_params = [],
         formula_execute = routes_formula_execute\<rparr>\<rparr>"

definition source_param :: param_decl where
  "source_param =
     \<lparr>param_type = StringParameter, param_name = ''source'',
      param_description = ''What mileage program you are requesting availability for'',
      param_autocomplete =
        [''avianca'', ''american'', ''aeromexico'', ''delta'', ''ethiad'', ''united'', ''virginatlantic''],
      param_optional = False\<rparr>"

definition dates_param :: param_decl where
  "dates_param =
     \<lparr>param_type = DateArrayParameter, param_name = ''dates'',
      param_description = ''What dates you are requesting availability for'',
      param_autocomplete = [], param_optional = True\<rparr>"

definition availability_table :: sync_table_decl where
  "availability_table =
     \<lparr>table_name = ''Availability'', identity_name = ''Availability'', table_schema = availability_schema,
      table_formula =
        \<lparr>formula_name = ''Availability'', formula_description = ''Availability'',
         formula_params = [source_param, dates_param],
         formula_execute = availability_formula_execute\<rparr>\<rparr>"

definition seats_pack :: pack_decl where
  "seats_pack =
     add_sync_table availability_table
       (add_sync_table routes_table (add_network_domain ''seats.aero'' new_pack))"

subsection \<open>The host\<close>

text \<open>The host of a URL: what follows the scheme's \<open>://\<close>, up to the first \<open>/\<close>, \<open>?\<close>,
  \<open>#\<close> or port separator. A request is let through when its host is a declared domain or
  a subdomain of one; otherwise the fetcher fails without sending anything.\<close>

fun after_scheme :: "string \<Rightarrow> string" where
  "after_scheme (a # b # c # r) = (if [a, b, c] = ''://'' then r else after_scheme (b # c # r))"
| "after_scheme _ = []"

definition url_host :: "string \<Rightarrow> string" where
  "url_host u = takeWhile (\<lambda>c. c \<notin> set ''/?#:'') (after_scheme u)"

definition ends_with :: "string \<Rightarrow> string \<Rightarrow> bool" where
  "ends_with s t \<longleftrightarrow> length t \<le> length s \<and> drop (length s - length t) s = t"

definition domain_allowed :: "string list \<Rightarrow> string \<Rightarrow> bool" where
  "domain_allowed ds h \<longleftrightarrow> list_ex (\<lambda>d. h = d \<or> ends_with h (''.'' @ d)) ds"

definition host_fetch :: "string list \<Rightarrow> fetcher \<Rightarrow> fetcher" where
  "host_fetch ds fetch req =
     (if domain_allowed ds (url_host (req_url req)) then fetch req
      else Inl (FetchFailed DomainNotAllowed))"

text \<open>Argument validation: no more arguments than parameters, each of its parameter's
  type, and every parameter left without an argument optional.\<close>

fun arg_conforms :: "param_decl \<Rightarrow> param_value \<Rightarrow> bool" where
  "arg_conforms p (StringArg s) \<longleftrightarrow> param_type p = StringParameter"
| "arg_conforms p (DateArrayArg ds) \<longleftrightarrow> param_type p = DateArrayParameter"

definition args_conform :: "param_decl list \<Rightarrow> param_value list \<Rightarrow> bool" where
  "args_conform ps args \<longleftrightarrow>
     length args \<le> length ps \<and> list_all2 arg_conforms (take (length args) ps) args \<and>
     list_all param_optional (drop (length args) ps)"

text \<open>An invocation of a sync table by name: \<open>None\<close> when the host refuses it (no such
  table, or arguments that do not conform), otherwise what \<open>execute\<close> returns with the
  host's fetcher.\<close>

definition invoke_sync_table ::
  "pack_decl \<Rightarrow> string \<Rightarrow> param_value list \<Rightarrow> int \<Rightarrow> fetcher \<Rightarrow> jsval js_result option" where
  "invoke_sync_table p name args tza fetch =
     (case find (\<lambda>t. table_name t = name) (sync_tables p) of
        None \<Rightarrow> None
      | Some t \<Rightarrow>
          if args_conform (formula_params (table_formula t)) args
          then Some (formula_execute (table_formula t) args tza (host_fetch (network_domains p) fetch))
          else None)"

subsection \<open>Well-formed packs\<close>

text \<open>What the host requires of a registration: unique parameter names, required
  parameters before optional ones, autocomplete only on string parameters, named tables
  with well-formed schemas, and unique table and identity names.\<close>

definition wf_params :: "param_decl list \<Rightarrow> bool" where
  "wf_params ps \<longleftrightarrow>
     distinct (map param_name ps) \<and>
     sorted (map (\<lambda>p. if param_optional p then 1 else (0::nat)) ps) \<and>
     list_all (\<lambda>p. param_autocomplete p = [] \<or> param_type p = StringParameter) ps"

definition wf_table :: "sync_table_decl \<Rightarrow> bool" where
  "wf_table t \<longleftrightarrow>
     table_name t \<noteq> [] \<and> identity_name t \<noteq> [] \<and> wf_schema (table_schema t) \<and>
     wf_params (formula_params (table_formula t))"

definition wf_pack :: "pack_decl \<Rightarrow> bool" where
  "wf_pack p \<longleftrightarrow>
     distinct (map table_name (sync_tables p)) \<and> distinct (map identity_name (sync_tables p)) \<and>
     list_all wf_table (sync_tables p)"

subsection \<open>Facts\<close>

lemma after_scheme_https [simp]: "after_scheme (''https://'' @ r) = r"
  by simp

lemma url_host_seats [simp]: "url_host (''https://seats.aero/'' @ r) = ''seats.aero''"
  by (simp add: url_host_def)

lemma seats_domain_allowed [simp]: "domain_allowed [''seats.aero''] ''seats.aero''"
  by (simp add: domain_allowed_def)

lemma routes_url_host: "url_host (req_url routes_request) = ''seats.aero''"
proof -
  have h: "routes_url = ''https://seats.aero/'' @ ''api/routes''" by (simp add: routes_url_def)
  show ?thesis by (simp only: routes_request_def fetch_request.select_convs h url_host_seats)
qed

lemma availability_url_host: "url_host (req_url (availability_request source)) = ''seats.aero''"
proof -
  have h: "availability_base_url = ''https://seats.aero/'' @ ''api/availability''"
    by (simp add: availability_base_url_def)
  obtain q where "req_url (availability_request source) = availability_base_url @ q"
    by (simp add: availability_request_def with_query_params_def)
  then show ?thesis by (simp only: h append_assoc url_host_seats)
qed

lemma host_fetch_pass:
  "domain_allowed ds (url_host (req_url req)) \<Longrightarrow> host_fetch ds fetch req = fetch req"
  by (simp add: host_fetch_def)

lemma seats_pack_simps:
  "network_domains seats_pack = [''seats.aero'']"
  "sync_tables seats_pack = [routes_table, availability_table]"
  by (simp_all add: seats_pack_def add_sync_table_def add_network_domain_def new_pack_def)

lemma routes_table_name [simp]: "table_name routes_table = ''Routes''"
  by (simp add: routes_table_def)

lemma routes_table_params [simp]: "formula_params (table_formula routes_table) = []"
  by (simp add: routes_table_def)

lemma routes_table_execute [simp]:
  "formula_execute (table_formula routes_table) = routes_formula_execute"
  by (simp add: routes_table_def)

lemma availability_table_name [simp]: "table_name availability_table = ''Availability''"
  by (simp add: availability_table_def)

lemma availability_table_params [simp]:
  "formula_params (table_formula availability_table) = [source_param, dates_param]"
  by (simp add: availability_table_def)

lemma availability_table_execute [simp]:
  "formula_execute (table_formula availability_table) = availability_formula_execute"
  by (simp add: availability_table_def)

lemma arg_conforms_iff:
  "arg_conforms p a \<longleftrightarrow>
     (\<exists>s. a = StringArg s \<and> param_type p = StringParameter) \<or>
     (\<exists>ds. a = DateArrayArg ds \<and> param_type p = DateArrayParameter)"
  by (cases a) auto

lemma args_conform_no_args [simp]: "args_conform ps [] \<longleftrightarrow> list_all param_optional ps"
  by (simp add: args_conform_def)

lemma args_conform_no_params [simp]: "args_conform [] args \<longleftrightarrow> args = []"
  by (simp add: args_conform_def)

lemma args_conform_Cons [simp]:
  "args_conform (p # ps) (a # as) \<longleftrightarrow> arg_conforms p a \<and> args_conform ps as"
  by (auto simp: args_conform_def)

lemma availability_args:
  "args_conform [source_param, dates_param] args \<longleftrightarrow>
     (\<exists>s. args = [StringArg s] \<or> (\<exists>ds. args = [StringArg s, DateArrayArg ds]))"
  by (cases args rule: remdups_adj.cases)
    (auto simp: arg_conforms_iff source_param_def dates_param_def)

text \<open>
  C18. The registration wires each table to its own \<open>execute\<close> and the declared network
  domain covers every request the formulas make: for every fetcher, invoking the Routes
  table with no arguments is \<open>routes_execute\<close>, and invoking the Availability table with a
  source, with or without dates, is \<open>availability_execute\<close> on them; the host's domain
  check never refuses one of these requests.
\<close>

theorem seats_pack_invokes:
  "invoke_sync_table seats_pack ''Routes'' [] tza fetch = Some (routes_execute fetch) \<and>
   invoke_sync_table seats_pack ''Availability'' [StringArg source] tza fetch =
     Some (availability_execute fetch tza source None) \<and>
   invoke_sync_table seats_pack ''Availability'' [StringArg source, DateArrayArg dates] tza fetch =
     Some (availability_execute fetch tza source (Some dates))"
proof -
  have "domain_allowed [''seats.aero''] (url_host (req_url routes_request))"
    "domain_allowed [''seats.aero''] (url_host (req_url (availability_request source)))"
    by (simp_all only: routes_url_host availability_url_host seats_domain_allowed)
  then have "host_fetch [''seats.aero''] fetch routes_request = fetch routes_request"
    "host_fetch [''seats.aero''] fetch (availability_request source) = fetch (availability_request source)"
    by (simp_all add: host_fetch_pass)
  then show ?thesis
    by (simp add: invoke_sync_table_def seats_pack_simps availability_args
        routes_execute_def availability_execute_def routes_formula_execute_def availability_formula_execute_def
        del: args_conform_Cons)
qed

lemma wf_pack_new_pack: "wf_pack new_pack"
  by (simp add: wf_pack_def new_pack_def)

lemma wf_pack_add_network_domain: "wf_pack p \<Longrightarrow> wf_pack (add_network_domain d p)"
  by (simp add: wf_pack_def add_network_domain_def)

lemma wf_pack_add_sync_table:
  assumes "wf_pack p" and "wf_table t"
    and "table_name t \<notin> set (map table_name (sync_tables p))"
    and "identity_name t \<notin> set (map identity_name (sync_tables p))"
  shows "wf_pack (add_sync_table t p)"
  using assms by (simp add: wf_pack_def add_sync_table_def)

lemma wf_table_routes: "wf_table routes_table"
  by (simp add: wf_table_def routes_table_def route_schema_def wf_params_def)

lemma wf_table_availability: "wf_table availability_table"
  by (simp add: wf_table_def availability_table_def availability_schema_def route_schema_def
      wf_params_def source_param_def dates_param_def)

text \<open>
  C19. The parameter declarations decide which invocations the host accepts: exactly the
  Routes table with no arguments and the Availability table with a string source,
  optionally followed by one array of Dates of any length; every other table name or
  argument list is refused before \<open>execute\<close> runs.
\<close>

theorem seats_pack_accepts:
  "invoke_sync_table seats_pack name args tza fetch \<noteq> None \<longleftrightarrow>
     (name = ''Routes'' \<and> args = [] \<or>
      name = ''Availability'' \<and> (\<exists>s. args = [StringArg s] \<or> (\<exists>ds. args = [StringArg s, DateArrayArg ds])))"
  by (auto simp: invoke_sync_table_def seats_pack_simps availability_args simp del: args_conform_Cons args_conform_no_args)

text \<open>
  The pack as built is well formed: each step of the builder preserves the host's
  requirements (unique table and identity names, well-formed schemas, unique parameter
  names, required before optional parameters, autocomplete only on strings), so
  \<open>seats_pack\<close> satisfies them.
\<close>

theorem seats_pack_wf: "wf_pack seats_pack"
proof -
  let ?p = "add_network_domain ''seats.aero'' new_pack"
  have p: "wf_pack ?p" by (intro wf_pack_add_network_domain wf_pack_new_pack)
  have r: "wf_pack (add_sync_table routes_table ?p)"
    using p wf_table_routes
    by (rule wf_pack_add_sync_table) (simp_all add: add_network_domain_def new_pack_def)
  have "wf_pack (add_sync_table availability_table (add_sync_table routes_table ?p))"
    using r wf_table_availability
    by (rule wf_pack_add_sync_table)
      (simp_all add: add_sync_table_def add_network_domain_def new_pack_def routes_table_def availability_table_def)
  then show ?thesis by (simp only: seats_pack_def)
qed

lemma source_autocomplete_unreserved: "list_all (list_all uri_unreserved) (param_autocomplete source_param)"
  by (simp add: source_param_def uri_unreserved_def)

text \<open>
  Every suggested \<open>source\<close> value reaches the server verbatim: for each autocomplete
  entry the request URL is the availability URL followed by \<open>?source=\<close> and the entry,
  unescaped.
\<close>

theorem source_autocomplete_verbatim:
  "map (\<lambda>v. req_url (availability_request v)) (param_autocomplete source_param) =
     map (\<lambda>v. availability_base_url @ ''?source='' @ v) (param_autocomplete source_param)"
proof -
  have "req_url (availability_request v) = availability_base_url @ ''?source='' @ v"
    if "list_all uri_unreserved v" for v
    using that encode_uri_component_unreserved [of "''source''"] encode_uri_component_unreserved [of v]
    by (simp add: availability_request_def with_query_params_def uri_unreserved_def)
  then show ?thesis
    using source_autocomplete_unreserved by (simp add: list_all_iff)
qed

end
