(* ===== verification/Json.thy ===== *)
theory Json
  imports JsValue RoundTrip
begin

text \<open>
  \<open>JSON.parse\<close> and \<open>JSON.stringify\<close> (ECMA-262 25.5) on the model's values: the host's
  fetcher parses a JSON response body with the first, the upstream server writes it with
  the second. The parser is a recursive descent with fuel, the serializer a structural
  recursion. The lemmas show that the fuel the parser is given is always enough, and that
  parsing a serialized well-formed value gives the value back.
\<close>

section \<open>JSON.parse\<close>

datatype json_error = OutOfFuel | JsonSyntaxError | Unrepresentable

type_synonym 'a json_result = "json_error + ('a \<times> string)"

definition json_ws :: "char \<Rightarrow> bool" where
  "json_ws c \<longleftrightarrow> c \<in> {CHR '' '', CHR 0x09, CHR 0x0A, CHR 0x0D}"

definition skip_ws :: "string \<Rightarrow> string" where
  "skip_ws s = dropWhile json_ws s"

definition json_literal :: "string \<Rightarrow> jsval \<Rightarrow> string \<Rightarrow> jsval json_result" where
  "json_literal w v s = (if take (length w) s = w then Inr (v, drop (length w) s) else Inl JsonSyntaxError)"

definition simple_escape :: "char \<Rightarrow> char option" where
  "simple_escape e =
     (if e = CHR 0x22 then Some (CHR 0x22)
      else if e = CHR 0x5C then Some (CHR 0x5C)
      else if e = CHR ''/'' then Some (CHR ''/'')
      else if e = CHR ''b'' then Some (CHR 0x08)
      else if e = CHR ''f'' then Some (CHR 0x0C)
      else if e = CHR ''n'' then Some (CHR 0x0A)
      else if e = CHR ''r'' then Some (CHR 0x0D)
      else if e = CHR ''t'' then Some (CHR 0x09)
      else None)"

definition hex4 :: "string \<Rightarrow> nat option" where
  "hex4 ds = (if list_all (radix_digit 16) ds then Some (digits_value 16 radix_value ds) else None)"

definition cons_char :: "char \<Rightarrow> string json_result \<Rightarrow> string json_result" where
  "cons_char d r = map_sum id (\<lambda>(cs, rest). (d # cs, rest)) r"

text \<open>One character of a string literal after the opening quote: an escape
  (\<open>\"\<close>, \<open>\\\<close>, \<open>\/\<close>, \<open>\b\<close>, \<open>\f\<close>, \<open>\n\<close>, \<open>\r\<close>, \<open>\t\<close>, \<open>\uXXXX\<close>) or a character
  that is not a control character; the result is the character and the number of
  characters after \<open>c\<close> the escape used. A \<open>\u\<close> escape above \<open>U+00FF\<close> denotes a code
  unit the model's strings cannot hold.\<close>

definition json_char :: "char \<Rightarrow> string \<Rightarrow> json_error + (char \<times> nat)" where
  "json_char c s =
     (if c = CHR 0x5C then
        (case s of
           [] \<Rightarrow> Inl JsonSyntaxError
         | e # r \<Rightarrow>
             if e = CHR ''u'' then
               (if 4 \<le> length r then
                  (case hex4 (take 4 r) of
                     None \<Rightarrow> Inl JsonSyntaxError
                   | Some n \<Rightarrow> if n < 256 then Inr (char_of n, 5) else Inl Unrepresentable)
                else Inl JsonSyntaxError)
             else
               (case simple_escape e of
                  None \<Rightarrow> Inl JsonSyntaxError
                | Some d \<Rightarrow> Inr (d, 1)))
      else if of_char c < (32::nat) then Inl JsonSyntaxError
      else Inr (c, 0))"

function json_string_chars :: "string \<Rightarrow> string json_result" where
  "json_string_chars [] = Inl JsonSyntaxError"
| "json_string_chars (c # s) =
     (if c = CHR 0x22 then Inr ([], s)
      else
        (case json_char c s of
           Inl e \<Rightarrow> Inl e
         | Inr (d, k) \<Rightarrow> cons_char d (json_string_chars (drop k s))))"
  by pat_completeness auto
termination
  by (relation "measure length") auto

text \<open>A number token: the longest run of number characters, checked against the
  grammar \<open>-? (0 | [1-9][0-9]*) (. [0-9]+)? ([eE] [+-]? [0-9]+)?\<close>; its value is the
  Number of the literal (StringToNumber). After a number only white space, \<open>,\<close>, \<open>]\<close>,
  \<open>}\<close> or the end may follow, none of them a number character, so taking the longest
  run accepts exactly the texts the grammar does.\<close>

definition json_number_char :: "char \<Rightarrow> bool" where
  "json_number_char c \<longleftrightarrow> is_digit c \<or> c \<in> set ''+-.eE''"

definition json_int_part :: "string \<Rightarrow> bool" where
  "json_int_part ip \<longleftrightarrow> ip = ''0'' \<or> (ip \<noteq> [] \<and> hd ip \<noteq> CHR ''0'')"

definition json_exp_part :: "string \<Rightarrow> bool" where
  "json_exp_part r \<longleftrightarrow>
     r = [] \<or>
     (hd r \<in> set ''eE'' \<and>
      (let r1 = tl r; r2 = (if r1 \<noteq> [] \<and> hd r1 \<in> set ''+-'' then tl r1 else r1)
       in r2 \<noteq> [] \<and> list_all is_digit r2))"

definition json_number_syntax :: "string \<Rightarrow> bool" where
  "json_number_syntax t \<longleftrightarrow>
     (let t1 = (if t \<noteq> [] \<and> hd t = CHR ''-'' then tl t else t);
          ip = takeWhile is_digit t1; r1 = dropWhile is_digit t1
      in json_int_part ip \<and>
         (if r1 \<noteq> [] \<and> hd r1 = CHR ''.'' then
            (let fp = takeWhile is_digit (tl r1); r2 = dropWhile is_digit (tl r1)
             in fp \<noteq> [] \<and> json_exp_part r2)
          else json_exp_part r1))"

definition json_number :: "string \<Rightarrow> jsval json_result" where
  "json_number s =
     (let t = takeWhile json_number_char s
      in if json_number_syntax t then Inr (JNumber (string_to_number t), dropWhile json_number_char s)
         else Inl JsonSyntaxError)"

definition bind_json :: "'a json_result \<Rightarrow> ('a \<Rightarrow> string \<Rightarrow> 'b json_result) \<Rightarrow> 'b json_result" where
  "bind_json r f = (case r of Inl e \<Rightarrow> Inl e | Inr (x, rest) \<Rightarrow> f x rest)"

text \<open>Values, arrays and objects by recursive descent. The fuel argument bounds the
  depth of calls; every call consumes input, so fuel one more than the length of the
  text is enough (\<open>json_descent_fuel\<close>). A value starts at a non-blank character; the
  callers skip white space. Object members are added with \<open>set_prop\<close>
  (CreateDataProperty): a repeated key keeps its first position and takes the last value.\<close>

datatype json_mode =
    ValueMode
  | ArrayTailMode "jsval list"
  | MemberMode "(string \<times> jsval) list"
  | ObjectTailMode "(string \<times> jsval) list"

primrec json_descent :: "nat \<Rightarrow> json_mode \<Rightarrow> string \<Rightarrow> jsval json_result" where
  "json_descent 0 m s = Inl OutOfFuel"
| "json_descent (Suc n) m s =
     (case (m, s) of
        (_, []) \<Rightarrow> Inl JsonSyntaxError
      | (ValueMode, c # r) \<Rightarrow>
          if c = CHR ''['' then
            (let r' = skip_ws r
             in if r' \<noteq> [] \<and> hd r' = CHR '']'' then Inr (JArray [], tl r')
                else bind_json (json_descent n ValueMode r')
                       (\<lambda>v r2. json_descent n (ArrayTailMode [v]) (skip_ws r2)))
          else if c = CHR ''{'' then
            (let r' = skip_ws r
             in if r' \<noteq> [] \<and> hd r' = CHR ''}'' then Inr (JObject [], tl r')
                else json_descent n (MemberMode []) r')
          else if c = CHR 0x22 then bind_json (json_string_chars r) (\<lambda>cs r2. Inr (JString cs, r2))
          else if c = CHR ''t'' then json_literal ''true'' (JBool True) s
          else if c = CHR ''f'' then json_literal ''false'' (JBool False) s
          else if c = CHR ''n'' then json_literal ''null'' JNull s
          else if c = CHR ''-'' \<or> is_digit c then json_number s
          else Inl JsonSyntaxError
      | (ArrayTailMode acc, c # r) \<Rightarrow>
          if c = CHR '']'' then Inr (JArray acc, r)
          else if c = CHR '','' then
            bind_json (json_descent n ValueMode (skip_ws r))
              (\<lambda>v r2. json_descent n (ArrayTailMode (acc @ [v])) (skip_ws r2))
          else Inl JsonSyntaxError
      | (MemberMode acc, c # r) \<Rightarrow>
          if c = CHR 0x22 then
            bind_json (json_string_chars r) (\<lambda>k r2.
              (case skip_ws r2 of
                 [] \<Rightarrow> Inl JsonSyntaxError
               | c2 # r3 \<Rightarrow>
                   if c2 = CHR '':'' then
                     bind_json (json_descent n ValueMode (skip_ws r3))
                       (\<lambda>v r4. json_descent n (ObjectTailMode (set_prop acc k v)) (skip_ws r4))
                   else Inl JsonSyntaxError))
          else Inl JsonSyntaxError
      | (ObjectTailMode acc, c # r) \<Rightarrow>
          if c = CHR ''}'' then Inr (JObject acc, r)
          else if c = CHR '','' then json_descent n (MemberMode acc) (skip_ws r)
          else Inl JsonSyntaxError)"

text \<open>\<open>JSON.parse(text)\<close>: one value, surrounded by white space only.\<close>

definition json_parse :: "string \<Rightarrow> json_error + jsval" where
  "json_parse s =
     (case json_descent (Suc (length s)) ValueMode (skip_ws s) of
        Inl e \<Rightarrow> Inl e
      | Inr (v, r) \<Rightarrow> if skip_ws r = [] then Inr v else Inl JsonSyntaxError)"

section \<open>JSON.stringify\<close>

text \<open>The server writes the response body with \<open>JSON.stringify\<close> (ECMA-262 25.5.2):
  QuoteJSONString escapes \<open>"\<close>, \<open>\\\<close>, the five control characters with a short
  escape and every other code unit below \<open>0x20\<close> as \<open>\u00xx\<close> in lower-case hex;
  SerializeJSONProperty gives nothing for \<open>undefined\<close>, \<open>null\<close> for a non-finite Number
  and Number::toString for a finite one; an array writes \<open>null\<close> for an element that
  gives nothing, an object leaves such a member out.\<close>

definition hex_lower :: "nat \<Rightarrow> char" where
  "hex_lower d = (if d < 10 then char_of (48 + d) else char_of (87 + d))"

definition json_escape_char :: "char \<Rightarrow> string" where
  "json_escape_char c =
     (if c = CHR 0x22 then [CHR 0x5C, CHR 0x22]
      else if c = CHR 0x5C then [CHR 0x5C, CHR 0x5C]
      else if c = CHR 0x08 then [CHR 0x5C, CHR ''b'']
      else if c = CHR 0x09 then [CHR 0x5C, CHR ''t'']
      else if c = CHR 0x0A then [CHR 0x5C, CHR ''n'']
      else if c = CHR 0x0C then [CHR 0x5C, CHR ''f'']
      else if c = CHR 0x0D then [CHR 0x5C, CHR ''r'']
      else if of_char c < (32::nat) then
        [CHR 0x5C, CHR ''u'', CHR ''0'', CHR ''0'', hex_lower (of_char c div 16), hex_lower (of_char c mod 16)]
      else [c])"

definition json_quote :: "string \<Rightarrow> string" where
  "json_quote s = CHR 0x22 # concat (map json_escape_char s) @ [CHR 0x22]"

fun json_serialize :: "jsval \<Rightarrow> string option" where
  "json_serialize JUndefined = None"
| "json_serialize JNull = Some ''null''"
| "json_serialize (JBool b) = Some (if b then ''true'' else ''false'')"
| "json_serialize (JNumber x) = Some (case x of Fin q \<Rightarrow> number_to_string (Fin q) | _ \<Rightarrow> ''null'')"
| "json_serialize (JString s) = Some (json_quote s)"
| "json_serialize (JArray vs) =
     Some (''['' @ join_with '','' (map (\<lambda>v. case json_serialize v of None \<Rightarrow> ''null'' | Some t \<Rightarrow> t) vs) @ '']'')"
| "json_serialize (JObject ps) =
     Some (''{'' @ join_with '',''
             (concat (map (\<lambda>(k, v). case json_serialize v of None \<Rightarrow> [] | Some t \<Rightarrow> [json_quote k @ '':'' @ t]) ps))
           @ ''}'')"

text \<open>The values \<open>JSON.parse\<close> can give back exactly: no \<open>undefined\<close>, finite binary64
  Numbers, objects without repeated keys.\<close>

fun json_wf :: "jsval \<Rightarrow> bool" where
  "json_wf JUndefined = False"
| "json_wf JNull = True"
| "json_wf (JBool b) = True"
| "json_wf (JNumber x) = (case x of Fin q \<Rightarrow> is_binary64 q | _ \<Rightarrow> False)"
| "json_wf (JString s) = True"
| "json_wf (JArray vs) = (\<forall>v \<in> set vs. json_wf v)"
| "json_wf (JObject ps) = (distinct (map fst ps) \<and> (\<forall>kv \<in> set ps. json_wf (snd kv)))"

text \<open>The texts that may follow a value inside a JSON text: the end, or the separator
  or closing bracket of an enclosing array or object.\<close>

definition json_stop :: "string \<Rightarrow> bool" where
  "json_stop t \<longleftrightarrow> t = [] \<or> hd t \<in> {CHR '','', CHR '']'', CHR ''}''}"

section \<open>Facts\<close>

subsection \<open>Every step consumes input; fuel one more than the length is enough\<close>

lemma bind_json_Inr_iff:
  "bind_json r f = Inr x \<longleftrightarrow> (\<exists>a rest. r = Inr (a, rest) \<and> f a rest = Inr x)"
  by (auto simp: bind_json_def split: sum.splits prod.splits)

lemma bind_json_fuel:
  "bind_json r f = Inl OutOfFuel \<Longrightarrow> r = Inl OutOfFuel \<or> (\<exists>a rest. r = Inr (a, rest) \<and> f a rest = Inl OutOfFuel)"
  by (auto simp: bind_json_def split: sum.splits prod.splits)

lemma length_skip_ws: "length (skip_ws s) \<le> length s"
  by (simp add: skip_ws_def length_dropWhile_le)

lemma cons_char_Inr: "cons_char d r = Inr (cs, rest) \<Longrightarrow> \<exists>cs'. r = Inr (cs', rest) \<and> cs = d # cs'"
  by (auto simp: cons_char_def split: sum.splits prod.splits)

lemma cons_char_fuel: "cons_char d r \<noteq> Inl OutOfFuel \<longleftrightarrow> r \<noteq> Inl OutOfFuel"
  by (cases r) (auto simp: cons_char_def)

lemma json_string_chars_consumes: "json_string_chars s = Inr (cs, r) \<Longrightarrow> length r < length s"
proof (induction s arbitrary: cs rule: json_string_chars.induct)
  case (2 c s)
  show ?case
  proof (cases "c = CHR 0x22")
    case False
    then obtain d k cs' where "json_char c s = Inr (d, k)" "json_string_chars (drop k s) = Inr (cs', r)"
      using 2(2) by (auto split: sum.splits prod.splits dest!: cons_char_Inr)
    then show ?thesis using 2(1) [OF False] by fastforce
  qed (use 2(2) in simp)
qed simp

lemma json_string_chars_fuel: "json_string_chars s \<noteq> Inl OutOfFuel"
proof (induction s rule: json_string_chars.induct)
  case (2 c s)
  have "json_char c s \<noteq> Inl OutOfFuel" by (auto simp: json_char_def split: list.splits option.splits)
  then show ?case using 2 by (auto simp: cons_char_fuel split: sum.splits)
qed simp

lemma json_literal_consumes: "json_literal w v s = Inr (x, r) \<Longrightarrow> w \<noteq> [] \<Longrightarrow> length r < length s"
proof -
  assume a: "json_literal w v s = Inr (x, r)" and w: "w \<noteq> []"
  then have "take (length w) s = w" and r: "r = drop (length w) s"
    by (auto simp: json_literal_def split: if_splits)
  then have "s \<noteq> []" using w by auto
  then show ?thesis using w by (simp add: r)
qed

lemma json_number_consumes: "json_number s = Inr (x, r) \<Longrightarrow> length r < length s"
proof -
  assume a: "json_number s = Inr (x, r)"
  let ?t = "takeWhile json_number_char s"
  have syn: "json_number_syntax ?t" and r: "r = dropWhile json_number_char s"
    using a by (auto simp: json_number_def Let_def split: if_splits)
  have "?t \<noteq> []"
  proof
    assume "?t = []"
    then show False using syn by (simp add: json_number_syntax_def json_int_part_def)
  qed
  moreover have "length s = length ?t + length (dropWhile json_number_char s)"
    by (metis length_append takeWhile_dropWhile_id)
  ultimately show ?thesis by (simp add: r)
qed

lemma json_atoms_fuel:
  "json_literal w v s \<noteq> Inl OutOfFuel" "json_number s \<noteq> Inl OutOfFuel"
  by (simp_all add: json_literal_def json_number_def Let_def)

lemma json_descent_value_Inr:
  assumes "json_descent (Suc n) ValueMode (c # t) = Inr (v, r)"
  shows "(\<exists>r'. r = tl r' \<and> r' \<noteq> [] \<and> length r' \<le> length t) \<or>
    (\<exists>v1 r1. json_descent n ValueMode (skip_ws t) = Inr (v1, r1) \<and>
        json_descent n (ArrayTailMode [v1]) (skip_ws r1) = Inr (v, r)) \<or>
    json_descent n (MemberMode []) (skip_ws t) = Inr (v, r) \<or>
    (\<exists>cs. json_string_chars t = Inr (cs, r)) \<or>
    (\<exists>w x. w \<noteq> [] \<and> json_literal w x (c # t) = Inr (v, r)) \<or>
    json_number (c # t) = Inr (v, r)"
  using assms length_skip_ws [of t]
  by (auto simp: bind_json_Inr_iff Let_def split: if_splits)

lemma json_descent_array_Inr:
  assumes "json_descent (Suc n) (ArrayTailMode acc) (c # t) = Inr (v, r)"
  shows "r = t \<or>
    (\<exists>v1 r1. json_descent n ValueMode (skip_ws t) = Inr (v1, r1) \<and>
        json_descent n (ArrayTailMode (acc @ [v1])) (skip_ws r1) = Inr (v, r))"
  using assms by (auto simp: bind_json_Inr_iff split: if_splits)

lemma json_descent_member_Inr:
  assumes "json_descent (Suc n) (MemberMode acc) (c # t) = Inr (v, r)"
  shows "\<exists>k r2 c2 r3 v1 r4. json_string_chars t = Inr (k, r2) \<and> skip_ws r2 = c2 # r3 \<and>
    json_descent n ValueMode (skip_ws r3) = Inr (v1, r4) \<and>
    json_descent n (ObjectTailMode (set_prop acc k v1)) (skip_ws r4) = Inr (v, r)"
proof -
  obtain k r2 where k: "json_string_chars t = Inr (k, r2)" and
    rest: "(case skip_ws r2 of
             [] \<Rightarrow> Inl JsonSyntaxError
           | c2 # r3 \<Rightarrow>
               if c2 = CHR '':'' then
                 bind_json (json_descent n ValueMode (skip_ws r3))
                   (\<lambda>v r4. json_descent n (ObjectTailMode (set_prop acc k v)) (skip_ws r4))
               else Inl JsonSyntaxError) = Inr (v, r)"
    using assms by (auto simp: bind_json_Inr_iff split: if_splits)
  then obtain c2 r3 where "skip_ws r2 = c2 # r3"
    by (cases "skip_ws r2") auto
  with rest k show ?thesis by (auto simp: bind_json_Inr_iff split: if_splits)
qed

lemma json_descent_object_Inr:
  assumes "json_descent (Suc n) (ObjectTailMode acc) (c # t) = Inr (v, r)"
  shows "r = t \<or> json_descent n (MemberMode acc) (skip_ws t) = Inr (v, r)"
  using assms by (auto split: if_splits)

lemma json_descent_consumes:
  "json_descent n m s = Inr (v, r) \<Longrightarrow> length r < length s"
proof (induction n arbitrary: m s v r)
  case (Suc n)
  note IH = Suc.IH
  have ws: "length (skip_ws x) \<le> length x" for x by (rule length_skip_ws)
  show ?case
  proof (cases s)
    case (Cons c t)
    note e = Suc.prems [unfolded Cons]
    have lt: "length t < length s" using Cons by simp
    show ?thesis
    proof (cases m)
      case ValueMode
      from json_descent_value_Inr [OF e [unfolded ValueMode]] show ?thesis
      proof (elim disjE exE conjE)
        fix v1 r1
        assume "json_descent n ValueMode (skip_ws t) = Inr (v1, r1)"
          and "json_descent n (ArrayTailMode [v1]) (skip_ws r1) = Inr (v, r)"
        then show ?thesis using IH ws [of t] ws [of r1] lt by (meson le_less_trans less_trans)
      qed (use IH ws [of t] lt Cons json_string_chars_consumes json_literal_consumes json_number_consumes
           in \<open>fastforce+\<close>)
    next
      case (ArrayTailMode acc)
      from json_descent_array_Inr [OF e [unfolded ArrayTailMode]] show ?thesis
      proof (elim disjE exE conjE)
        fix v1 r1
        assume "json_descent n ValueMode (skip_ws t) = Inr (v1, r1)"
          and "json_descent n (ArrayTailMode (acc @ [v1])) (skip_ws r1) = Inr (v, r)"
        then show ?thesis using IH ws [of t] ws [of r1] lt by (meson le_less_trans less_trans)
      qed (use lt in simp)
    next
      case (MemberMode acc)
      from json_descent_member_Inr [OF e [unfolded MemberMode]] obtain k r2 c2 r3 v1 r4 where
        a: "json_string_chars t = Inr (k, r2)" "skip_ws r2 = c2 # r3"
          "json_descent n ValueMode (skip_ws r3) = Inr (v1, r4)"
          "json_descent n (ObjectTailMode (set_prop acc k v1)) (skip_ws r4) = Inr (v, r)"
        by blast
      have "length r2 < length t" using json_string_chars_consumes [OF a(1)] .
      moreover have "length r3 < length r2" using ws [of r2] a(2) by simp
      moreover have "length r4 < length (skip_ws r3)" using IH [OF a(3)] .
      moreover have "length r < length (skip_ws r4)" using IH [OF a(4)] .
      ultimately show ?thesis using ws [of r3] ws [of r4] lt by linarith
    next
      case (ObjectTailMode acc)
      from json_descent_object_Inr [OF e [unfolded ObjectTailMode]] show ?thesis
        using IH ws [of t] lt by (meson le_less_trans less_trans)
    qed
  qed (use Suc.prems in \<open>cases m; simp\<close>)
qed simp

lemma bind_json_string_fuel:
  "bind_json (json_string_chars t) f = Inl OutOfFuel \<Longrightarrow>
     \<exists>a rest. json_string_chars t = Inr (a, rest) \<and> f a rest = Inl OutOfFuel"
  using bind_json_fuel json_string_chars_fuel by blast

lemma json_descent_value_fuel:
  assumes "json_descent (Suc n) ValueMode (c # t) = Inl OutOfFuel"
  shows "json_descent n ValueMode (skip_ws t) = Inl OutOfFuel \<or>
    (\<exists>v1 r1. json_descent n ValueMode (skip_ws t) = Inr (v1, r1) \<and>
        json_descent n (ArrayTailMode [v1]) (skip_ws r1) = Inl OutOfFuel) \<or>
    json_descent n (MemberMode []) (skip_ws t) = Inl OutOfFuel"
  using assms json_atoms_fuel
  by (auto simp: Let_def split: if_splits dest!: bind_json_fuel bind_json_string_fuel)

lemma json_descent_array_fuel:
  assumes "json_descent (Suc n) (ArrayTailMode acc) (c # t) = Inl OutOfFuel"
  shows "json_descent n ValueMode (skip_ws t) = Inl OutOfFuel \<or>
    (\<exists>v1 r1. json_descent n ValueMode (skip_ws t) = Inr (v1, r1) \<and>
        json_descent n (ArrayTailMode (acc @ [v1])) (skip_ws r1) = Inl OutOfFuel)"
  using assms by (auto split: if_splits dest!: bind_json_fuel)

lemma json_descent_member_fuel:
  assumes "json_descent (Suc n) (MemberMode acc) (c # t) = Inl OutOfFuel"
  shows "\<exists>k r2 c2 r3. json_string_chars t = Inr (k, r2) \<and> skip_ws r2 = c2 # r3 \<and>
    (json_descent n ValueMode (skip_ws r3) = Inl OutOfFuel \<or>
     (\<exists>v1 r4. json_descent n ValueMode (skip_ws r3) = Inr (v1, r4) \<and>
        json_descent n (ObjectTailMode (set_prop acc k v1)) (skip_ws r4) = Inl OutOfFuel))"
proof -
  obtain k r2 where k: "json_string_chars t = Inr (k, r2)" and
    rest: "(case skip_ws r2 of
             [] \<Rightarrow> Inl JsonSyntaxError
           | c2 # r3 \<Rightarrow>
               if c2 = CHR '':'' then
                 bind_json (json_descent n ValueMode (skip_ws r3))
                   (\<lambda>v r4. json_descent n (ObjectTailMode (set_prop acc k v)) (skip_ws r4))
               else Inl JsonSyntaxError) = Inl OutOfFuel"
    using assms by (auto split: if_splits dest!: bind_json_string_fuel)
  then obtain c2 r3 where "skip_ws r2 = c2 # r3"
    by (cases "skip_ws r2") auto
  with rest k show ?thesis by (auto split: if_splits dest!: bind_json_fuel)
qed

lemma json_descent_object_fuel:
  assumes "json_descent (Suc n) (ObjectTailMode acc) (c # t) = Inl OutOfFuel"
  shows "json_descent n (MemberMode acc) (skip_ws t) = Inl OutOfFuel"
  using assms by (auto split: if_splits)

lemma json_descent_fuel:
  "length s < n \<Longrightarrow> json_descent n m s \<noteq> Inl OutOfFuel"
proof (induction n arbitrary: m s)
  case (Suc n)
  note IH = Suc.IH
  have ws: "length (skip_ws x) \<le> length x" for x by (rule length_skip_ws)
  show ?case
  proof
    assume e0: "json_descent (Suc n) m s = Inl OutOfFuel"
    show False
    proof (cases s)
      case (Cons c t)
      note e = e0 [unfolded Cons]
      have lt: "length t < n" using Suc.prems Cons by simp
      have wt: "length (skip_ws t) < n" using ws [of t] lt by linarith
      have after: "json_descent n ValueMode (skip_ws x) = Inr (v1, r1) \<Longrightarrow> length x < n \<Longrightarrow>
          length (skip_ws r1) < n" for x v1 r1
        using json_descent_consumes [of n ValueMode "skip_ws x" v1 r1] ws [of x] ws [of r1] by linarith
      show False
      proof (cases m)
        case ValueMode
        from json_descent_value_fuel [OF e [unfolded ValueMode]] show False
          using IH wt after [of t] lt by blast
      next
        case (ArrayTailMode acc)
        from json_descent_array_fuel [OF e [unfolded ArrayTailMode]] show False
          using IH wt after [of t] lt by blast
      next
        case (MemberMode acc)
        from json_descent_member_fuel [OF e [unfolded MemberMode]] obtain k r2 c2 r3 where
          a: "json_string_chars t = Inr (k, r2)" "skip_ws r2 = c2 # r3"
          and b: "json_descent n ValueMode (skip_ws r3) = Inl OutOfFuel \<or>
            (\<exists>v1 r4. json_descent n ValueMode (skip_ws r3) = Inr (v1, r4) \<and>
               json_descent n (ObjectTailMode (set_prop acc k v1)) (skip_ws r4) = Inl OutOfFuel)"
          by blast
        have "length r3 < n"
          using json_string_chars_consumes [OF a(1)] ws [of r2] a(2) lt by simp
        then show False using b IH ws [of r3] after [of r3] by (meson le_less_trans)
      next
        case (ObjectTailMode acc)
        from json_descent_object_fuel [OF e [unfolded ObjectTailMode]] show False
          using IH wt by blast
      qed
    qed (use e0 in \<open>cases m; simp\<close>)
  qed
qed simp


subsection \<open>String literals\<close>

lemma of_char_char_of_small: "n < 256 \<Longrightarrow> of_char (char_of n :: char) = (n::nat)"
  by (simp add: of_char_of)

lemma hex_digit_value_hex_lower: "d < 16 \<Longrightarrow> hex_digit_value (hex_lower d) = Some d"
  by (auto simp: hex_lower_def hex_digit_value_def Let_def of_char_char_of_small)

lemma hex4_escape:
  assumes "n < 32"
  shows "hex4 [CHR ''0'', CHR ''0'', hex_lower (n div 16), hex_lower (n mod 16)] = Some n"
proof -
  have a: "n div 16 < 16" "n mod 16 < 16" using assms by auto
  have z: "hex_digit_value (CHR ''0'') = Some 0" by (simp add: hex_digit_value_def)
  have "digits_value 16 radix_value [CHR ''0'', CHR ''0'', hex_lower (n div 16), hex_lower (n mod 16)]
      = 16 * (n div 16) + n mod 16"
    using digits_value_snoc [of 16 radix_value "[CHR ''0'', CHR ''0'', hex_lower (n div 16)]" "hex_lower (n mod 16)"]
      digits_value_snoc [of 16 radix_value "[CHR ''0'', CHR ''0'']" "hex_lower (n div 16)"]
      digits_value_snoc [of 16 radix_value "[CHR ''0'']" "CHR ''0''"]
    by (simp add: radix_value_def hex_digit_value_hex_lower [OF a(1)] hex_digit_value_hex_lower [OF a(2)] z)
  then show ?thesis
    using a by (simp add: hex4_def radix_digit_def hex_digit_value_hex_lower [OF a(1)] hex_digit_value_hex_lower [OF a(2)] z)
qed

lemma json_string_chars_escape:
  "json_string_chars (json_escape_char c @ rest) = cons_char c (json_string_chars rest)"
proof -
  consider (q) "c = CHR 0x22" | (b) "c = CHR 0x5C" | (s) "c \<in> {CHR 0x08, CHR 0x09, CHR 0x0A, CHR 0x0C, CHR 0x0D}"
    | (u) "c \<notin> {CHR 0x22, CHR 0x5C, CHR 0x08, CHR 0x09, CHR 0x0A, CHR 0x0C, CHR 0x0D}" "of_char c < (32::nat)"
    | (p) "c \<notin> {CHR 0x22, CHR 0x5C}" "\<not> of_char c < (32::nat)"
    by (cases "of_char c < (32::nat)") auto
  then show ?thesis
  proof cases
    case u
    have h: "hex4 [CHR ''0'', CHR ''0'', hex_lower (of_char c div 16), hex_lower (of_char c mod 16)] = Some (of_char c)"
      using hex4_escape [OF u(2)] .
    show ?thesis using u
      by (simp add: json_escape_char_def json_char_def h)
  next
    case p
    then have "c \<notin> {CHR 0x08, CHR 0x09, CHR 0x0A, CHR 0x0C, CHR 0x0D}" by auto
    then show ?thesis using p by (auto simp: json_escape_char_def json_char_def)
  qed (auto simp: json_escape_char_def json_char_def simple_escape_def)
qed

lemma json_string_chars_quote:
  "json_string_chars (concat (map json_escape_char s) @ CHR 0x22 # t) = Inr (s, t)"
  by (induction s) (simp_all add: json_string_chars_escape cons_char_def)


subsection \<open>Number tokens\<close>

lemma is_binary64_dyadic:
  assumes b: "is_binary64 q" and q: "q \<noteq> 0"
  obtains m k where "q = of_int m * ipow 2 k" "m \<noteq> 0" "\<bar>m\<bar> < 2 ^ 53" "-1074 \<le> k" "k \<le> 971"
proof -
  define E where "E = binade \<bar>q\<bar>"
  define u where "u = ipow 2 (E - 52)"
  have aq: "0 < \<bar>q\<bar>" using q by simp
  have u: "0 < u" by (simp add: u_def)
  have E: "E \<le> 1023" and fl: "of_int \<lfloor>\<bar>q\<bar> / u\<rfloor> = \<bar>q\<bar> / u"
    using b q by (simp_all add: is_binary64_def Let_def E_def u_def)
  have E0: "-1022 \<le> E" by (simp add: E_def binade_def)
  define a where "a = \<lfloor>\<bar>q\<bar> / u\<rfloor>"
  have qa: "\<bar>q\<bar> = of_int a * u"
  proof -
    have "\<bar>q\<bar> / u * u = \<bar>q\<bar>" using u by simp
    then show ?thesis unfolding a_def fl by simp
  qed
  have "\<bar>q\<bar> < ipow 2 (floor_log 2 \<bar>q\<bar> + 1)" using floor_log_bounds [of 2 "\<bar>q\<bar>"] aq by simp
  also have "\<dots> \<le> ipow 2 (E + 1)" by (rule ipow_mono) (simp_all add: E_def binade_def)
  also have "ipow 2 (E + 1) = ipow 2 53 * u"
    using ipow_add [of 2 53 "E - 52"] by (simp add: u_def add.commute)
  finally have "of_int a * u < ipow 2 53 * u" using qa by simp
  then have "(of_int a :: rat) < of_int (2 ^ 53)" using u by (simp add: ipow_def)
  then have a53: "a < 2 ^ 53" by linarith
  have a0: "0 < a" using qa aq u by (simp add: zero_less_mult_iff)
  define m where "m = (if 0 < q then a else - a)"
  have "q = of_int m * u" using qa by (auto simp: m_def abs_if split: if_splits)
  then show ?thesis using that [of m "E - 52"] a53 a0 E E0 by (simp add: m_def u_def abs_if)
qed

lemma hd_nat_digits_pos: "0 < s \<Longrightarrow> hd (nat_digits s) \<noteq> CHR ''0''"
proof (induction s rule: nat_digits.induct)
  case (1 s)
  show ?case
  proof (cases "s < 10")
    case True
    have "of_char (digit_char s) = (48 + s :: nat)" using True by (simp add: digit_char_def of_char_char_of_small)
    then have "digit_char s \<noteq> CHR ''0''" using "1.prems" by auto
    then show ?thesis using True by (subst nat_digits.simps) simp
  next
    case False
    then show ?thesis using "1.IH" by (subst nat_digits.simps) simp
  qed
qed

lemma digits_split:
  assumes "list_all is_digit ds" and "r = [] \<or> \<not> is_digit (hd r)"
  shows "takeWhile is_digit (ds @ r) = ds" and "dropWhile is_digit (ds @ r) = r"
proof -
  have a: "\<forall>c \<in> set ds. is_digit c" using assms(1) by (simp add: list_all_iff)
  have b: "takeWhile is_digit r = []" "dropWhile is_digit r = r" using assms(2) by (cases r; simp)+
  show "takeWhile is_digit (ds @ r) = ds" using a b by (simp add: takeWhile_append2)
  show "dropWhile is_digit (ds @ r) = r" using a b by (simp add: dropWhile_append2)
qed

lemma json_number_syntax_minus:
  "u \<noteq> [] \<Longrightarrow> hd u \<noteq> CHR ''-'' \<Longrightarrow> json_number_syntax (CHR ''-'' # u) = json_number_syntax u"
  by (simp add: json_number_syntax_def)

lemma json_number_syntax_int:
  assumes ip: "list_all is_digit ip" "ip \<noteq> []" and r: "r = [] \<or> \<not> is_digit (hd r) \<and> hd r \<noteq> CHR ''.''"
  shows "json_number_syntax (ip @ r) \<longleftrightarrow> json_int_part ip \<and> json_exp_part r"
proof -
  have "hd (ip @ r) \<noteq> CHR ''-''" using ip by (cases ip) (auto simp: is_digit_def)
  then have t1: "(if ip @ r \<noteq> [] \<and> hd (ip @ r) = CHR ''-'' then tl (ip @ r) else ip @ r) = ip @ r" by simp
  have r': "r = [] \<or> \<not> is_digit (hd r)" using r by auto
  show ?thesis
    unfolding json_number_syntax_def Let_def t1 digits_split [OF ip(1) r'] using r by auto
qed

lemma json_number_syntax_frac:
  assumes ip: "list_all is_digit ip" "ip \<noteq> []" and fp: "list_all is_digit fp" "fp \<noteq> []"
    and r: "r = [] \<or> \<not> is_digit (hd r)"
  shows "json_number_syntax (ip @ CHR ''.'' # fp @ r) \<longleftrightarrow> json_int_part ip \<and> json_exp_part r"
proof -
  let ?t = "ip @ CHR ''.'' # fp @ r"
  have "hd ?t \<noteq> CHR ''-''" using ip by (cases ip) (auto simp: is_digit_def)
  then have t1: "(if ?t \<noteq> [] \<and> hd ?t = CHR ''-'' then tl ?t else ?t) = ?t" by simp
  have dot: "CHR ''.'' # fp @ r = [] \<or> \<not> is_digit (hd (CHR ''.'' # fp @ r))" by (simp add: is_digit_def)
  show ?thesis
    unfolding json_number_syntax_def Let_def t1 digits_split [OF ip(1) dot]
    using fp by (simp add: digits_split [OF fp(1) r])
qed

lemma format_decimal_syntax:
  assumes s: "0 < s" and K: "length (nat_digits s) = K"
  shows "json_number_syntax (format_decimal n K s)"
proof -
  define ds where "ds = nat_digits s"
  have dig: "list_all is_digit ds" by (simp add: ds_def nat_digits_all_digits)
  have ne: "ds \<noteq> []" by (simp add: ds_def)
  have hd0: "hd ds \<noteq> CHR ''0''" using hd_nat_digits_pos [OF s] by (simp add: ds_def)
  have len: "length ds = K" using K by (simp add: ds_def)
  have K1: "1 \<le> K" using len ne by (cases ds) auto
  have ip1: "json_int_part (ds @ zs)" for zs
    using ne hd0 by (cases ds) (simp_all add: json_int_part_def)
  have ip2: "json_int_part (take j ds)" if "0 < j" for j
    using ne hd0 that by (cases ds) (simp_all add: json_int_part_def)
  have dtake: "list_all is_digit (take j ds)" "list_all is_digit (drop j ds)" for j
    using dig by (auto simp: list_all_iff dest: in_set_takeD in_set_dropD)
  have tne: "take j ds \<noteq> []" if "0 < j" for j using ne that by simp
  have es: "json_exp_part (CHR ''e'' # sg # nat_digits j)" if "sg \<in> {CHR ''-'', CHR ''+''}" for sg j
    using that by (auto simp: json_exp_part_def nat_digits_all_digits)
  have ne_e: "\<not> is_digit CHR ''e''" by (simp add: is_digit_def)
  have zeros: "list_all is_digit (replicate z CHR ''0'')" for z by (simp add: list_all_iff is_digit_def)
  consider (a) "int K \<le> n \<and> n \<le> 21" | (b) "\<not> (int K \<le> n \<and> n \<le> 21)" "0 < n \<and> n \<le> 21"
    | (c) "\<not> (0 < n \<and> n \<le> 21)" "-6 < n \<and> n \<le> 0" | (d) "\<not> (int K \<le> n \<and> n \<le> 21)" "\<not> (0 < n \<and> n \<le> 21)" "\<not> (-6 < n \<and> n \<le> 0)"
    by linarith
  then show ?thesis
  proof cases
    case a
    then have f: "format_decimal n K s = (ds @ replicate (nat n - K) CHR ''0'') @ []"
      by (simp add: format_decimal_def ds_def Let_def)
    show ?thesis unfolding f
      by (subst json_number_syntax_int) (simp_all add: dig zeros ne ip1 json_exp_part_def)
  next
    case b
    then have f: "format_decimal n K s = take (nat n) ds @ CHR ''.'' # drop (nat n) ds @ []"
      by (simp add: format_decimal_def ds_def Let_def)
    have "nat n < K" using b by linarith
    then have "drop (nat n) ds \<noteq> []" using len by simp
    then show ?thesis unfolding f using b
      by (subst json_number_syntax_frac) (simp_all add: dtake tne ip2 ne json_exp_part_def)
  next
    case c
    then have f: "format_decimal n K s = ''0'' @ CHR ''.'' # (replicate (nat (- n)) CHR ''0'' @ ds) @ []"
      using K1 by (simp add: format_decimal_def ds_def Let_def)
    show ?thesis unfolding f
      by (subst json_number_syntax_frac) (simp_all add: dig zeros ne json_int_part_def json_exp_part_def is_digit_def)
  next
    case d
    show ?thesis
    proof (cases "K = 1")
      case True
      then have f: "format_decimal n K s = ds @ CHR ''e'' # (if n - 1 < 0 then CHR ''-'' else CHR ''+'') # nat_digits (nat \<bar>n - 1\<bar>)"
        unfolding format_decimal_def Let_def ds_def if_not_P [OF d(1)] if_not_P [OF d(2)] if_not_P [OF d(3)]
        using True by simp
      show ?thesis unfolding f
        by (subst json_number_syntax_int) (simp_all add: dig ne ne_e es ip1 [of "[]", simplified])
    next
      case False
      then have f: "format_decimal n K s = take 1 ds @ CHR ''.'' # drop 1 ds @ CHR ''e'' # (if n - 1 < 0 then CHR ''-'' else CHR ''+'') # nat_digits (nat \<bar>n - 1\<bar>)"
        unfolding format_decimal_def Let_def ds_def if_not_P [OF d(1)] if_not_P [OF d(2)] if_not_P [OF d(3)]
        using False by simp
      have "drop 1 ds \<noteq> []" using False len ne by (cases ds) auto
      then show ?thesis unfolding f
        by (subst json_number_syntax_frac) (simp_all add: dtake tne ip2 ne ne_e es)
    qed
  qed
qed

lemma number_to_string_binary64:
  assumes b: "is_binary64 x"
  shows "json_number_syntax (number_to_string (Fin x))"
    and "\<forall>c \<in> set (number_to_string (Fin x)). json_number_char c"
    and "string_to_number (number_to_string (Fin x)) = Fin x"
proof -
  have nc: "json_number_char c" if "c \<in> set (format_decimal n K s)" for c n K s
    using format_decimal_chars [OF that] by (auto simp: json_number_char_def)
  have "json_number_syntax (number_to_string (Fin x)) \<and> (\<forall>c \<in> set (number_to_string (Fin x)). json_number_char c) \<and>
    string_to_number (number_to_string (Fin x)) = Fin x"
  proof (cases "x = 0")
    case True
    then show ?thesis
      by (simp add: json_number_syntax_def json_int_part_def json_exp_part_def json_number_char_def is_digit_def
          js_eval round_binary64_def)
  next
    case False
    obtain m k where x: "x = of_int m * ipow 2 k" and m: "m \<noteq> 0" "\<bar>m\<bar> < 2 ^ 53" and k: "-1074 \<le> k" "k \<le> 971"
      by (rule is_binary64_dyadic [OF b False])
    have ax: "\<bar>x\<bar> = of_int \<bar>m\<bar> * ipow 2 k" by (simp add: x abs_mult less_imp_le [OF ipow_pos])
    obtain n K s where pts: "positive_to_string \<bar>x\<bar> = format_decimal n K s"
      and s: "0 < s" and len: "length (nat_digits s) = K"
    proof (rule positive_to_string_binary64 [of "\<bar>m\<bar>" k])
      show "0 < \<bar>m\<bar>" "\<bar>m\<bar> < 2 ^ 53" "-1074 \<le> k" "k \<le> 971" using m k by simp_all
    qed (simp_all only: ax [symmetric])
    have syn: "json_number_syntax (format_decimal n K s)" by (rule format_decimal_syntax [OF s len])
    have hd: "format_decimal n K s \<noteq> [] \<and> hd (format_decimal n K s) \<noteq> CHR ''-''"
      using format_decimal_hd [of n K s] by (auto simp: is_digit_def)
    have rt: "string_to_number (number_to_string (Fin x)) = Fin x"
      using number_to_string_roundtrip_abs [OF False] binary64_abs_roundtrip [OF m k] by (simp add: x)
    show ?thesis
    proof (cases "0 < x")
      case True
      then show ?thesis using rt syn nc [of _ n K s] pts by (simp add: number_to_string_pos)
    next
      case neg: False
      then have "number_to_string (Fin x) = CHR ''-'' # format_decimal n K s"
        using False pts by (simp add: number_to_string_neg)
      then show ?thesis
        using rt syn nc [of _ n K s] json_number_syntax_minus [of "format_decimal n K s"] hd
        by (simp add: json_number_char_def)
    qed
  qed
  then show "json_number_syntax (number_to_string (Fin x))"
    and "\<forall>c \<in> set (number_to_string (Fin x)). json_number_char c"
    and "string_to_number (number_to_string (Fin x)) = Fin x" by simp_all
qed

lemma json_number_token:
  assumes b: "is_binary64 x" and t: "t = [] \<or> \<not> json_number_char (hd t)"
  shows "json_number (number_to_string (Fin x) @ t) = Inr (JNumber (Fin x), t)"
proof -
  let ?w = "number_to_string (Fin x)"
  have tw: "takeWhile json_number_char t = []" "dropWhile json_number_char t = t" using t by (cases t; simp)+
  have "takeWhile json_number_char (?w @ t) = ?w" "dropWhile json_number_char (?w @ t) = t"
    using number_to_string_binary64(2) [OF b] tw by (simp_all add: takeWhile_append2 dropWhile_append2)
  then show ?thesis
    using number_to_string_binary64(1,3) [OF b] by (simp add: json_number_def)
qed

subsection \<open>Values\<close>

lemma skip_ws_id: "s = [] \<or> \<not> json_ws (hd s) \<Longrightarrow> skip_ws s = s"
  by (cases s) (auto simp: skip_ws_def)

lemma json_stop_simps:
  assumes "json_stop t"
  shows "skip_ws t = t" and "t = [] \<or> \<not> json_number_char (hd t)"
  using assms by (auto simp: json_stop_def json_ws_def json_number_char_def is_digit_def intro: skip_ws_id)

lemma json_serialize_None: "json_serialize v = None \<longleftrightarrow> v = JUndefined"
  by (cases v) auto

lemma number_to_string_hd: "number_to_string (Fin q) \<noteq> [] \<and> (is_digit (hd (number_to_string (Fin q))) \<or> hd (number_to_string (Fin q)) = CHR ''-'')"
  using format_decimal_hd
  by (auto simp: positive_to_string_def is_digit_def split: prod.splits)

lemma json_serialize_hd:
  assumes "json_serialize v = Some w"
  shows "w \<noteq> [] \<and> \<not> json_ws (hd w) \<and> hd w \<noteq> CHR '']'' \<and> hd w \<noteq> CHR ''}''"
proof (cases v)
  case (JNumber x)
  show ?thesis
  proof (cases x)
    case (Fin q)
    then have "w = number_to_string (Fin q)" using assms JNumber by simp
    then have "w \<noteq> [] \<and> (is_digit (hd w) \<or> hd w = CHR ''-'')" using number_to_string_hd [of q] by simp
    then show ?thesis by (auto simp: json_ws_def is_digit_def)
  qed (use assms JNumber in \<open>auto simp: json_ws_def\<close>)
qed (use assms in \<open>auto simp: json_ws_def json_quote_def split: if_splits\<close>)

lemma join_with_Cons: "join_with sep (s # ss) = s @ concat (map (\<lambda>w. sep @ w) ss)"
  by (induction ss arbitrary: s) auto

lemma json_stop_sep: "json_stop (concat (map (\<lambda>x. CHR '','' # f x) xs) @ c # t) \<longleftrightarrow> (xs \<noteq> [] \<or> c \<in> {CHR '','', CHR '']'', CHR ''}''})"
  by (cases xs) (auto simp: json_stop_def)

lemma skip_ws_append: "w \<noteq> [] \<Longrightarrow> \<not> json_ws (hd w) \<Longrightarrow> skip_ws (w @ t) = w @ t"
  by (rule skip_ws_id) simp

lemma json_descent_array_tail:
  assumes el: "\<And>v n t. v \<in> set vs \<Longrightarrow> json_stop t \<Longrightarrow> length (f v @ t) < n \<Longrightarrow>
      json_descent n ValueMode (f v @ t) = Inr (v, t)"
    and ne: "\<And>v. v \<in> set vs \<Longrightarrow> f v \<noteq> [] \<and> \<not> json_ws (hd (f v))"
    and len: "length (concat (map (\<lambda>v. CHR '','' # f v) vs) @ CHR '']'' # t) < n"
  shows "json_descent n (ArrayTailMode acc) (concat (map (\<lambda>v. CHR '','' # f v) vs) @ CHR '']'' # t) =
    Inr (JArray (acc @ vs), t)"
  using el ne len
proof (induction vs arbitrary: acc n)
  case Nil
  then obtain n' where "n = Suc n'" by (cases n) auto
  then show ?case by simp
next
  case (Cons v vs)
  then obtain n' where n: "n = Suc n'" by (cases n) auto
  let ?rest = "concat (map (\<lambda>v. CHR '','' # f v) vs) @ CHR '']'' # t"
  have st: "json_stop ?rest" by (simp add: json_stop_sep)
  have sk: "skip_ws (f v @ ?rest) = f v @ ?rest" using Cons.prems(2) [of v] by (simp add: skip_ws_append)
  have ev: "json_descent n' ValueMode (f v @ ?rest) = Inr (v, ?rest)"
    using Cons.prems(1) [of v ?rest n'] st Cons.prems(3) n by simp
  have tl: "json_descent n' (ArrayTailMode (acc @ [v])) ?rest = Inr (JArray (acc @ [v] @ vs), t)"
    using Cons.IH [of n' "acc @ [v]"] Cons.prems n by simp
  show ?case
    using n sk ev tl json_stop_simps(1) [OF st] by (simp add: bind_json_def)
qed

lemma set_prop_fresh: "k \<notin> set (map fst acc) \<Longrightarrow> set_prop acc k v = acc @ [(k, v)]"
  by (induction acc) auto

lemma json_descent_member:
  assumes el: "\<And>n t. json_stop t \<Longrightarrow> length (w @ t) < n \<Longrightarrow> json_descent n ValueMode (w @ t) = Inr (v, t)"
    and ne: "w \<noteq> [] \<and> \<not> json_ws (hd w)" and st: "json_stop rest"
    and len: "length (json_quote k @ CHR '':'' # w @ rest) < Suc n"
  shows "json_descent (Suc n) (MemberMode acc) (json_quote k @ CHR '':'' # w @ rest) =
    json_descent n (ObjectTailMode (set_prop acc k v)) rest"
proof -
  have q: "json_quote k @ CHR '':'' # w @ rest = CHR 0x22 # (concat (map json_escape_char k) @ CHR 0x22 # CHR '':'' # w @ rest)"
    by (simp add: json_quote_def)
  have c: "skip_ws (CHR '':'' # w @ rest) = CHR '':'' # w @ rest" by (simp add: skip_ws_def json_ws_def)
  have sk: "skip_ws (w @ rest) = w @ rest" using ne by (simp add: skip_ws_append)
  have ev: "json_descent n ValueMode (w @ rest) = Inr (v, rest)"
    using el [OF st] len by (simp add: json_quote_def)
  show ?thesis
    unfolding q using c sk ev json_stop_simps(1) [OF st]
    by (simp add: json_string_chars_quote bind_json_def)
qed

lemma json_descent_object_tail:
  assumes el: "\<And>k v n t. (k, v) \<in> set ps \<Longrightarrow> json_stop t \<Longrightarrow> length (f v @ t) < n \<Longrightarrow>
      json_descent n ValueMode (f v @ t) = Inr (v, t)"
    and ne: "\<And>k v. (k, v) \<in> set ps \<Longrightarrow> f v \<noteq> [] \<and> \<not> json_ws (hd (f v))"
    and d: "distinct (map fst (acc @ ps))"
    and len: "length (concat (map (\<lambda>(k, v). CHR '','' # json_quote k @ CHR '':'' # f v) ps) @ CHR ''}'' # t) < n"
  shows "json_descent n (ObjectTailMode acc)
      (concat (map (\<lambda>(k, v). CHR '','' # json_quote k @ CHR '':'' # f v) ps) @ CHR ''}'' # t) =
    Inr (JObject (acc @ ps), t)"
  using el ne d len
proof (induction ps arbitrary: acc n)
  case Nil
  then obtain n' where "n = Suc n'" by (cases n) auto
  then show ?case by simp
next
  case (Cons p ps)
  obtain k v where p: "p = (k, v)" by (cases p)
  let ?g = "\<lambda>(k, v). CHR '','' # json_quote k @ CHR '':'' # f v"
  let ?rest = "concat (map ?g ps) @ CHR ''}'' # t"
  obtain n' where n: "n = Suc (Suc n')" using Cons.prems(4) p by (cases n; cases "n - 1") auto
  have st: "json_stop ?rest" by (cases ps) (auto simp: json_stop_def)
  have sk: "skip_ws (json_quote k @ CHR '':'' # f v @ ?rest) = json_quote k @ CHR '':'' # f v @ ?rest"
    by (simp add: skip_ws_def json_quote_def json_ws_def)
  have m: "json_descent (Suc n') (MemberMode acc) (json_quote k @ CHR '':'' # f v @ ?rest) =
      json_descent n' (ObjectTailMode (set_prop acc k v)) ?rest"
  proof (rule json_descent_member)
    show "json_stop t \<Longrightarrow> length (f v @ t) < n \<Longrightarrow> json_descent n ValueMode (f v @ t) = Inr (v, t)" for n t
      using Cons.prems(1) [of k v] p by simp
    show "f v \<noteq> [] \<and> \<not> json_ws (hd (f v))" using Cons.prems(2) [of k v] p by simp
    show "json_stop ?rest" by (rule st)
    show "length (json_quote k @ CHR '':'' # f v @ ?rest) < Suc n'" using Cons.prems(4) n p by simp
  qed
  have fresh: "set_prop acc k v = acc @ [(k, v)]" using Cons.prems(3) p by (simp add: set_prop_fresh)
  have tl: "json_descent n' (ObjectTailMode (acc @ [(k, v)])) ?rest = Inr (JObject ((acc @ [(k, v)]) @ ps), t)"
  proof (rule Cons.IH)
    show "json_descent m ValueMode (f v' @ t') = Inr (v', t')"
      if "(k', v') \<in> set ps" "json_stop t'" "length (f v' @ t') < m" for k' v' t' m
      using Cons.prems(1) [of k' v' t' m] that by simp
    show "f v' \<noteq> [] \<and> \<not> json_ws (hd (f v'))" if "(k', v') \<in> set ps" for k' v'
      using Cons.prems(2) [of k' v'] that by simp
    show "distinct (map fst ((acc @ [(k, v)]) @ ps))" using Cons.prems(3) p by simp
    show "length (?rest) < n'" using Cons.prems(4) p n by simp
  qed
  show ?case using n sk m tl fresh p by simp
qed

lemma json_serialize_wf: "json_wf v \<Longrightarrow> json_serialize v = Some (case json_serialize v of None \<Rightarrow> ''null'' | Some t \<Rightarrow> t)"
  by (cases "json_serialize v") (auto simp: json_serialize_None)

lemma json_descent_serialize:
  "json_wf v \<Longrightarrow> json_serialize v = Some w \<Longrightarrow> json_stop t \<Longrightarrow> length (w @ t) < n \<Longrightarrow>
    json_descent n ValueMode (w @ t) = Inr (v, t)"
proof (induction v arbitrary: w t n)
  case JUndefined
  then show ?case by simp
next
  case JNull
  then obtain n' where "n = Suc n'" by (cases n) auto
  moreover have "w = ''null''" using JNull.prems by simp
  ultimately show ?case by (simp add: json_literal_def)
next
  case (JBool b)
  then obtain n' where "n = Suc n'" by (cases n) auto
  moreover have "w = (if b then ''true'' else ''false'')" using JBool.prems by simp
  ultimately show ?case by (cases b) (simp_all add: json_literal_def)
next
  case (JNumber x)
  then obtain q where x: "x = Fin q" and b: "is_binary64 q" by (cases x) auto
  obtain n' where n: "n = Suc n'" using JNumber.prems by (cases n) auto
  have w: "w = number_to_string (Fin q)" using JNumber.prems x by simp
  obtain c r where cr: "w = c # r" and c: "is_digit c \<or> c = CHR ''-''"
    using number_to_string_hd [of q] unfolding w [symmetric] by (cases w) auto
  have nc: "c \<notin> {CHR ''['', CHR ''{'', CHR 0x22, CHR ''t'', CHR ''f'', CHR ''n''}"
    using c by (auto simp: is_digit_def)
  have "json_descent n ValueMode (w @ t) = json_number (w @ t)"
    using nc c unfolding n cr by auto
  also have "\<dots> = Inr (JNumber x, t)"
    using json_number_token [OF b json_stop_simps(2) [OF JNumber.prems(3)]] w x by simp
  finally show ?case .
next
  case (JString str)
  then obtain n' where "n = Suc n'" by (cases n) auto
  moreover have "w = json_quote str" using JString.prems by simp
  ultimately show ?case by (simp add: json_quote_def json_string_chars_quote bind_json_def)
next
  case (JArray vs)
  define f where "f = (\<lambda>v. case json_serialize v of None \<Rightarrow> ''null'' | Some t \<Rightarrow> t)"
  obtain n' where n: "n = Suc n'" using JArray.prems by (cases n) auto
  have sf: "json_serialize v = Some (f v)" if "v \<in> set vs" for v
    using json_serialize_wf [of v] JArray.prems(1) that by (simp add: f_def)
  have el: "json_descent m ValueMode (f v @ t') = Inr (v, t')"
    if "v \<in> set vs" "json_stop t'" "length (f v @ t') < m" for v t' m
    using JArray.IH [OF that(1) _ sf [OF that(1)] that(2,3)] JArray.prems(1) that(1) by simp
  have ne: "f v \<noteq> [] \<and> \<not> json_ws (hd (f v))" if "v \<in> set vs" for v
    using json_serialize_hd [OF sf [OF that]] by simp
  have w: "w = CHR ''['' # join_with '','' (map f vs) @ '']''" using JArray.prems(2) by (simp add: f_def)
  show ?case
  proof (cases vs)
    case Nil
    then show ?thesis using n w by (simp add: skip_ws_def json_ws_def)
  next
    case (Cons v1 vs')
    let ?rest = "concat (map (\<lambda>v. CHR '','' # f v) vs') @ CHR '']'' # t"
    have wt: "w @ t = CHR ''['' # f v1 @ ?rest" using w Cons by (simp add: join_with_Cons o_def)
    have v1: "v1 \<in> set vs" using Cons by simp
    have st: "json_stop ?rest" by (simp add: json_stop_sep)
    have sk: "skip_ws (f v1 @ ?rest) = f v1 @ ?rest" using ne [OF v1] by (simp add: skip_ws_append)
    have hd: "hd (f v1 @ ?rest) \<noteq> CHR '']''" using json_serialize_hd [OF sf [OF v1]] by simp
    have e1: "json_descent n' ValueMode (f v1 @ ?rest) = Inr (v1, ?rest)"
      using el [OF v1 st] JArray.prems(4) n wt by simp
    have e2: "json_descent n' (ArrayTailMode [v1]) ?rest = Inr (JArray ([v1] @ vs'), t)"
    proof (rule json_descent_array_tail)
      show "json_descent m ValueMode (f v @ t') = Inr (v, t')"
        if "v \<in> set vs'" "json_stop t'" "length (f v @ t') < m" for v t' m
        using el [of v t' m] that Cons by simp
      show "f v \<noteq> [] \<and> \<not> json_ws (hd (f v))" if "v \<in> set vs'" for v using ne [of v] that Cons by simp
      show "length ?rest < n'" using JArray.prems(4) n wt by simp
    qed
    show ?thesis
      unfolding n wt using sk hd e1 e2 json_stop_simps(1) [OF st] Cons by (simp add: bind_json_def)
  qed
next
  case (JObject ps)
  define f where "f = (\<lambda>v. case json_serialize v of None \<Rightarrow> ''null'' | Some t \<Rightarrow> t)"
  let ?g = "\<lambda>(k, v). json_quote k @ CHR '':'' # f v"
  have wf: "json_wf v" and d: "distinct (map fst ps)" if "(k, v) \<in> set ps" for k v
    using JObject.prems(1) that by auto
  have sf: "json_serialize v = Some (f v)" if "(k, v) \<in> set ps" for k v
    using json_serialize_wf [OF wf [OF that]] by (simp add: f_def)
  have el: "json_descent m ValueMode (f v @ t') = Inr (v, t')"
    if "(k, v) \<in> set ps" "json_stop t'" "length (f v @ t') < m" for k v t' m
    using JObject.IH [OF that(1) _ wf [OF that(1)] sf [OF that(1)] that(2,3)] by simp
  have ne: "f v \<noteq> [] \<and> \<not> json_ws (hd (f v))" if "(k, v) \<in> set ps" for k v
    using json_serialize_hd [OF sf [OF that]] by simp
  have members: "concat (map (\<lambda>(k, v). case json_serialize v of None \<Rightarrow> [] | Some t \<Rightarrow> [json_quote k @ '':'' @ t]) qs) =
      map ?g qs" if "set qs \<subseteq> set ps" for qs
    using that by (induction qs) (auto simp: sf)
  have w: "w = CHR ''{'' # join_with '','' (map ?g ps) @ ''}''"
    using JObject.prems(2) members [of ps] by simp
  obtain n' where n: "n = Suc n'" using JObject.prems by (cases n) auto
  show ?case
  proof (cases ps)
    case Nil
    then show ?thesis using n w by (simp add: skip_ws_def json_ws_def)
  next
    case (Cons p1 ps')
    obtain k1 v1 where p1: "p1 = (k1, v1)" by (cases p1)
    have kv1: "(k1, v1) \<in> set ps" using Cons p1 by simp
    let ?rest = "concat (map (\<lambda>(k, v). CHR '','' # json_quote k @ CHR '':'' # f v) ps') @ CHR ''}'' # t"
    have wt: "w @ t = CHR ''{'' # json_quote k1 @ CHR '':'' # f v1 @ ?rest"
      using w Cons p1 by (simp add: join_with_Cons o_def split_def)
    obtain n'' where n': "n' = Suc n''" using JObject.prems(4) n wt by (cases n') auto
    have st: "json_stop ?rest" by (cases ps') (auto simp: json_stop_def)
    have sk: "skip_ws (json_quote k1 @ CHR '':'' # f v1 @ ?rest) = json_quote k1 @ CHR '':'' # f v1 @ ?rest"
      by (simp add: skip_ws_def json_quote_def json_ws_def)
    have e1: "json_descent (Suc n'') (MemberMode []) (json_quote k1 @ CHR '':'' # f v1 @ ?rest) =
        json_descent n'' (ObjectTailMode (set_prop [] k1 v1)) ?rest"
    proof (rule json_descent_member)
      show "json_stop t' \<Longrightarrow> length (f v1 @ t') < m \<Longrightarrow> json_descent m ValueMode (f v1 @ t') = Inr (v1, t')" for m t'
        using el [OF kv1] by simp
      show "f v1 \<noteq> [] \<and> \<not> json_ws (hd (f v1))" by (rule ne [OF kv1])
      show "json_stop ?rest" by (rule st)
      show "length (json_quote k1 @ CHR '':'' # f v1 @ ?rest) < Suc n''" using JObject.prems(4) n n' wt by simp
    qed
    have e2: "json_descent n'' (ObjectTailMode [(k1, v1)]) ?rest = Inr (JObject ([(k1, v1)] @ ps'), t)"
    proof (rule json_descent_object_tail)
      show "json_descent m ValueMode (f v @ t') = Inr (v, t')"
        if "(k, v) \<in> set ps'" "json_stop t'" "length (f v @ t') < m" for k v t' m
        using el [of k v t' m] that Cons by simp
      show "f v \<noteq> [] \<and> \<not> json_ws (hd (f v))" if "(k, v) \<in> set ps'" for k v
        using ne [of k v] that Cons by simp
      show "distinct (map fst ([(k1, v1)] @ ps'))" using d [OF kv1] Cons p1 by simp
      show "length ?rest < n''" using JObject.prems(4) n n' wt by simp
    qed
    have hd: "hd (json_quote k1 @ CHR '':'' # f v1 @ ?rest) \<noteq> CHR ''}''" by (simp add: json_quote_def)
    show ?thesis
      unfolding n wt n' using sk hd e1 e2 Cons p1 by simp
  qed
qed


lemma json_parse_serialize:
  assumes v: "json_wf v" and w: "json_serialize v = Some w"
  shows "json_parse w = Inr v"
proof -
  have sk: "skip_ws w = w" using json_serialize_hd [OF w] by (simp add: skip_ws_append [of w "[]", simplified])
  have "json_descent (Suc (length w)) ValueMode (w @ []) = Inr (v, [])"
    by (rule json_descent_serialize [OF v w]) (simp_all add: json_stop_def)
  then show ?thesis
    unfolding json_parse_def sk by (simp del: json_descent.simps add: skip_ws_def)
qed

subsection \<open>Properties\<close>

text \<open>
  \<open>JSON.parse\<close> terminates on every text: the fuel it is given, one more than the
  length of the text, is never exhausted, so every text either gives a value or is
  rejected as a syntax error (or holds an escape the model's strings cannot represent).
\<close>

theorem json_parse_terminates: "json_parse s \<noteq> Inl OutOfFuel"
proof -
  have "length (skip_ws s) < Suc (length s)" using length_skip_ws [of s] by simp
  then have "json_descent (Suc (length s)) ValueMode (skip_ws s) \<noteq> Inl OutOfFuel"
    by (rule json_descent_fuel)
  then show ?thesis by (auto simp: json_parse_def split: sum.splits if_splits)
qed

text \<open>
  \<open>JSON.parse(JSON.stringify(v))\<close> is \<open>v\<close> for every well-formed value: no
  \<open>undefined\<close> at any depth, finite binary64 Numbers, objects without repeated keys.
  The serializer gives a text for such a value, and the parser reads exactly that value
  back from it: strings through their escapes, Numbers through Number::toString and
  StringToNumber, arrays and objects member by member in order.
\<close>

theorem json_roundtrip:
  assumes "json_wf v"
  shows "\<exists>w. json_serialize v = Some w \<and> json_parse w = Inr v"
proof -
  obtain w where w: "json_serialize v = Some w"
    using assms json_serialize_None [of v] by (cases "json_serialize v") auto
  then show ?thesis using json_parse_serialize [OF assms w] by blast
qed

theorem json_roundtrip_witness:
  "json_wf (JObject [(''a'', JArray [JNull, JBool True, JNumber (Fin 0)]), (''b'', JString ''a b'')]) \<and>
   (\<exists>w. json_serialize (JObject [(''a'', JArray [JNull, JBool True, JNumber (Fin 0)]), (''b'', JString ''a b'')]) = Some w \<and>
      json_parse w = Inr (JObject [(''a'', JArray [JNull, JBool True, JNumber (Fin 0)]), (''b'', JString ''a b'')]))"
  using json_roundtrip [of "JObject [(''a'', JArray [JNull, JBool True, JNumber (Fin 0)]), (''b'', JString ''a b'')]"]
  by (simp add: is_binary64_def)

end
