(* ===== verification/HostFetch.thy ===== *)
theory HostFetch
  imports Pack Json
begin

section \<open>The host's fetcher over HTTP\<close>

text \<open>
  The fetcher the host hands to \<open>execute\<close> (\<open>context.fetcher.fetch\<close>) performs the HTTP
  request and turns the response into what the formula sees: a transport failure is an
  exception, a status outside \<open>2xx\<close> is a \<open>StatusCodeError\<close> carrying the status, a body
  whose media type is \<open>application/json\<close> is parsed with \<open>JSON.parse\<close> (a body that does
  not parse throws a SyntaxError), and any other body is handed over as a string. The
  HTTP exchange itself is a parameter, the transport: a function from the request to
  the response, or \<open>None\<close> when no response arrives. This is the host's code, modelled
  from the Coda fetcher's documented behaviour; composed with the pack it gives what an
  invocation returns for a given server response.
\<close>

record http_response =
  http_status :: nat
  http_content_type :: string
  http_body :: string

type_synonym transport = "fetch_request \<Rightarrow> http_response option"

definition ascii_lower :: "char \<Rightarrow> char" where
  "ascii_lower c = (if (65::nat) \<le> of_char c \<and> of_char c \<le> (90::nat) then char_of (of_char c + (32::nat)) else c)"

text \<open>The media type of a \<open>Content-Type\<close> header: what precedes its parameters,
  compared without regard to case.\<close>

definition json_media_type :: "string \<Rightarrow> bool" where
  "json_media_type ct \<longleftrightarrow> map ascii_lower (takeWhile (\<lambda>c. c \<noteq> CHR '';'') ct) = ''application/json''"

definition status_ok :: "nat \<Rightarrow> bool" where
  "status_ok s \<longleftrightarrow> 200 \<le> s \<and> s < 300"

definition response_body :: "http_response \<Rightarrow> jsval js_result" where
  "response_body r =
     (if json_media_type (http_content_type r) then
        (case json_parse (http_body r) of Inl _ \<Rightarrow> Inl SyntaxError | Inr v \<Rightarrow> Inr v)
      else Inr (JString (http_body r)))"

definition coda_fetcher :: "transport \<Rightarrow> fetcher" where
  "coda_fetcher tr req =
     (case tr req of
        None \<Rightarrow> Inl (FetchFailed NetworkError)
      | Some r \<Rightarrow>
          if \<not> status_ok (http_status r) then Inl (FetchFailed (StatusCodeError (http_status r)))
          else map_sum id (\<lambda>v. \<lparr>resp_status = http_status r, resp_body = v\<rparr>) (response_body r))"

subsection \<open>Facts\<close>

lemma invoke_availability:
  "invoke_sync_table seats_pack ''Availability''
     (StringArg source # (case dates of None \<Rightarrow> [] | Some ds \<Rightarrow> [DateArrayArg ds])) tza fetch =
   Some (availability_execute fetch tza source dates)"
proof -
  have "domain_allowed [''seats.aero''] (url_host (req_url (availability_request source)))"
    by (simp only: availability_url_host seats_domain_allowed)
  then have "host_fetch [''seats.aero''] fetch (availability_request source) = fetch (availability_request source)"
    by (rule host_fetch_pass)
  then show ?thesis
    by (cases dates)
      (simp_all add: invoke_sync_table_def seats_pack_simps source_param_def dates_param_def
        availability_execute_def availability_formula_execute_def)
qed

lemma response_body_error: "response_body r = Inl e \<Longrightarrow> e = SyntaxError"
  by (auto simp: response_body_def split: if_splits sum.splits)

lemma coda_fetcher_ok:
  "tr req = Some r \<Longrightarrow> status_ok (http_status r) \<Longrightarrow>
    coda_fetcher tr req = map_sum id (\<lambda>v. \<lparr>resp_status = http_status r, resp_body = v\<rparr>) (response_body r)"
  by (simp add: coda_fetcher_def)

subsection \<open>Properties\<close>

text \<open>
  C20. End to end: when the server answers the Availability request with a \<open>2xx\<close> status
  and a JSON body that is the serialization of a well-formed value \<open>v\<close>, invoking the
  Availability table returns what the filter/transform stage makes of \<open>v\<close>, with or
  without dates.
\<close>

theorem availability_over_http:
  assumes r: "tr (availability_request source) = Some r" and s: "status_ok (http_status r)"
    and ct: "json_media_type (http_content_type r)"
    and v: "json_wf v" and body: "json_serialize v = Some (http_body r)"
  shows "invoke_sync_table seats_pack ''Availability''
      (StringArg source # (case dates of None \<Rightarrow> [] | Some ds \<Rightarrow> [DateArrayArg ds])) tza (coda_fetcher tr) =
    Some (availability_rows tza dates v)"
proof -
  have "response_body r = Inr v"
    using json_parse_serialize [OF v body] ct by (simp add: response_body_def)
  then have "coda_fetcher tr (availability_request source) = Inr \<lparr>resp_status = http_status r, resp_body = v\<rparr>"
    using coda_fetcher_ok [of tr "availability_request source" r, OF r s] by simp
  then show ?thesis by (simp add: invoke_availability availability_execute_def)
qed

theorem availability_over_http_witness:
  "(\<lambda>req. Some \<lparr>http_status = 200, http_content_type = ''application/json; charset=utf-8'',
       http_body = the (json_serialize (JArray [JObject [(''ID'', JString ''x'')]]))\<rparr>) (availability_request ''delta'') =
     Some \<lparr>http_status = 200, http_content_type = ''application/json; charset=utf-8'',
       http_body = the (json_serialize (JArray [JObject [(''ID'', JString ''x'')]]))\<rparr> \<and>
   status_ok 200 \<and> json_media_type ''application/json; charset=utf-8'' \<and>
   json_wf (JArray [JObject [(''ID'', JString ''x'')]]) \<and>
   json_serialize (JArray [JObject [(''ID'', JString ''x'')]]) =
     Some (the (json_serialize (JArray [JObject [(''ID'', JString ''x'')]]))) \<and>
   invoke_sync_table seats_pack ''Availability'' [StringArg ''delta''] 0
     (coda_fetcher (\<lambda>req. Some \<lparr>http_status = 200, http_content_type = ''application/json; charset=utf-8'',
       http_body = the (json_serialize (JArray [JObject [(''ID'', JString ''x'')]]))\<rparr>)) =
   Some (availability_rows 0 None (JArray [JObject [(''ID'', JString ''x'')]]))"
  using availability_over_http [of "\<lambda>req. Some \<lparr>http_status = 200, http_content_type = ''application/json; charset=utf-8'',
       http_body = the (json_serialize (JArray [JObject [(''ID'', JString ''x'')]]))\<rparr>" "''delta''" _
      "JArray [JObject [(''ID'', JString ''x'')]]" None 0]
  by (simp add: status_ok_def json_media_type_def ascii_lower_def)

text \<open>
  C21. The failures the spec names and nothing else surface as fetch errors: an
  Availability invocation ends with a fetch error exactly when no response arrives
  (\<open>NetworkError\<close>) or the response's status is not \<open>2xx\<close> (\<open>StatusCodeError\<close> with that
  status). A body that does not parse is a SyntaxError and the stage's own failures are
  TypeErrors, neither a fetch error.
\<close>

theorem availability_http_failures:
  "invoke_sync_table seats_pack ''Availability''
      (StringArg source # (case dates of None \<Rightarrow> [] | Some ds \<Rightarrow> [DateArrayArg ds])) tza (coda_fetcher tr) =
     Some (Inl (FetchFailed f)) \<longleftrightarrow>
   tr (availability_request source) = None \<and> f = NetworkError \<or>
   (\<exists>r. tr (availability_request source) = Some r \<and> \<not> status_ok (http_status r) \<and>
      f = StatusCodeError (http_status r))"
proof (cases "tr (availability_request source)")
  case None
  then show ?thesis by (auto simp: invoke_availability availability_execute_def coda_fetcher_def)
next
  case (Some r)
  have "response_body r = Inl e \<Longrightarrow> e \<noteq> FetchFailed f" for e using response_body_error by blast
  moreover have "availability_rows tza dates v \<noteq> Inl (FetchFailed f)" for v
    using availability_rows_TypeError by blast
  ultimately show ?thesis using Some
    by (cases "response_body r") (auto simp: invoke_availability availability_execute_def coda_fetcher_def)
qed

theorem availability_http_failures_witness:
  "invoke_sync_table seats_pack ''Availability'' [StringArg ''delta''] 0
     (coda_fetcher (\<lambda>req. Some \<lparr>http_status = 503, http_content_type = ''text/html'', http_body = ''busy''\<rparr>)) =
   Some (Inl (FetchFailed (StatusCodeError 503)))"
  using availability_http_failures [of "''delta''" None 0
      "\<lambda>req. Some \<lparr>http_status = 503, http_content_type = ''text/html'', http_body = ''busy''\<rparr>"
      "StatusCodeError 503"]
  by (simp add: status_ok_def)

text \<open>
  A successful status with a body that is not a JSON array still fails the
  invocation, with an error the spec's taxonomy does not name: a body whose media type is
  not JSON reaches \<open>resp.body.filter\<close> as a string, which has no \<open>filter\<close> method (a
  TypeError), and a JSON body that does not parse makes the fetcher throw a SyntaxError.
\<close>

theorem availability_body_not_json:
  assumes r: "tr (availability_request source) = Some r" and s: "status_ok (http_status r)"
  shows "(\<not> json_media_type (http_content_type r) \<longrightarrow>
      invoke_sync_table seats_pack ''Availability''
        (StringArg source # (case dates of None \<Rightarrow> [] | Some ds \<Rightarrow> [DateArrayArg ds])) tza (coda_fetcher tr) =
      Some (Inl TypeError)) \<and>
    (json_media_type (http_content_type r) \<and> json_parse (http_body r) = Inl e \<longrightarrow>
      invoke_sync_table seats_pack ''Availability''
        (StringArg source # (case dates of None \<Rightarrow> [] | Some ds \<Rightarrow> [DateArrayArg ds])) tza (coda_fetcher tr) =
      Some (Inl SyntaxError))"
  using coda_fetcher_ok [of tr "availability_request source" r, OF r s]
  by (simp add: invoke_availability availability_execute_def response_body_def availability_rows_def)

theorem availability_body_not_json_witness:
  "(\<lambda>req. Some \<lparr>http_status = 200, http_content_type = ''text/html'', http_body = ''<html>''\<rparr>)
     (availability_request ''delta'') = Some \<lparr>http_status = 200, http_content_type = ''text/html'', http_body = ''<html>''\<rparr> \<and>
   status_ok 200 \<and> \<not> json_media_type ''text/html'' \<and>
   invoke_sync_table seats_pack ''Availability'' [StringArg ''delta''] 0
     (coda_fetcher (\<lambda>req. Some \<lparr>http_status = 200, http_content_type = ''text/html'', http_body = ''<html>''\<rparr>)) =
   Some (Inl TypeError)"
  using availability_body_not_json [of "\<lambda>req. Some \<lparr>http_status = 200, http_content_type = ''text/html'', http_body = ''<html>''\<rparr>"
      "''delta''" _ None 0]
  by (simp add: status_ok_def json_media_type_def ascii_lower_def)

end
