(* ===== verification/Spec2Isabelle.thy ===== *)
theory Spec2Isabelle
  imports Routes Availability Schema Calendar Invocation Pack RoundTrip Json HostFetch
begin

text \<open>
  \<^bold>\<open>A verification library for the seats.aero Coda pack.\<close>

  \<^emph>\<open>The program.\<close> \<open>src/pack.ts\<close> is a Coda pack with two sync tables over the
  seats.aero API. \<open>Routes\<close> (lines 24 to 38) fetches \<open>/api/routes\<close> and returns the
  body unchanged. \<open>Availability\<close> (lines 40 to 115) fetches
  \<open>/api/availability?source=...\<close>, keeps the rows whose \<open>ParsedDate\<close> lies between
  \<open>dates[0]\<close> and \<open>dates[1]\<close> when the optional \<open>dates\<close> parameter is given, and
  rewrites the four cost fields of every kept row to \<open>Number(x) || undefined\<close>. The
  two row schemas (lines 7 to 22 and 43 to 76) are data for the host. Everything runs
  inside the host: the fetcher, \<open>withQueryParams\<close> and the JavaScript engine
  (ECMAScript semantics for \<open>Number\<close>, \<open>new Date\<close>, \<open>||\<close>, spread, \<open>filter\<close>,
  \<open>map\<close>).

  \<^emph>\<open>The theories.\<close>
  \<^item> \<open>Prelude\<close>: integer powers \<open>ipow\<close> of a rational base, decimal digits,
    sequencing of throwing operations (\<open>bind_res\<close>), the \<open>js_eval\<close> collection.
  \<^item> \<open>JsNumber\<close>: the Number type (\<open>jsnum\<close>) and binary64 rounding
    \<open>round_binary64\<close> (round to nearest, ties to even, subnormals, overflow).
  \<^item> \<open>StringToNumber\<close>: \<open>string_to_number\<close>, the StringNumericLiteral grammar that
    \<open>Number(s)\<close> applies to a string.
  \<^item> \<open>NumberToString\<close>: \<open>number_to_string\<close>, Number::toString, needed where an array
    is converted through \<open>join\<close>, and the lemmas that its digit search stops within
    its fuel for every finite binary64 value and writes positive integers as plain digits.
  \<^item> \<open>RoundTrip\<close>: StringToNumber applied to the output of Number::toString, in each
    of its four notations, gives back the value (the path \<open>Number([x])\<close> takes).
  \<^item> \<open>JsValue\<close>: the values of a JSON response (\<open>jsval\<close>), errors (\<open>js_error\<close>),
    ToBoolean, \<open>||\<close>, property access, ToString, ToNumber, spread.
  \<^item> \<open>DateTime\<close>: time values, the Date Time String Format, \<open>new_date\<close>, the
    comparisons of two Dates.
  \<^item> \<open>Fetcher\<close>: the fetch request and response records, the fetcher as a parameter,
    \<open>withQueryParams\<close>/\<open>encodeURIComponent\<close> of the SDK, and the server's
    \<open>decodeURIComponent\<close> (all three modelled from the spec), with the round trip and the
    absence of query separators in an encoded value.
  \<^item> \<open>Routes\<close>: \<open>routes_execute\<close>, the Routes formula, and its contract.
  \<^item> \<open>Calendar\<close>: the calendar notions of the spec (valid dates, \<open>YYYY-MM-DD\<close>,
    midnight UTC) and the facts relating them to \<open>MakeDay\<close>: the day count orders valid
    dates lexicographically, and a \<open>YYYY-MM-DD\<close> date parses to its midnight UTC.
  \<^item> \<open>Availability\<close>: the filter callback \<open>date_in_range\<close>, the cost conversion
    \<open>mileage_cost\<close>, the map callback \<open>transform_row\<close>, the stage
    \<open>availability_rows\<close> and the formula \<open>availability_execute\<close>, with the exact
    conditions under which each callback throws, and the properties of the stage
    (C1 to C15): the filter, the cost conversion, the map callback, the stage's output,
    and the agreement of the map callback with the Availability schema.
  \<^item> \<open>Invocation\<close>: the two \<open>async execute\<close> functions as a step relation
    \<open>exec_step\<close> on an \<open>invocation\<close> state (phase and requests sent): \<open>issue\<close> runs
    up to the \<open>await\<close> of \<open>context.fetcher.fetch\<close>, \<open>resume\<close> settles the fetch with
    any outcome and runs the rest (\<open>routes_continuation\<close>,
    \<open>availability_continuation\<close>); reachability, runs (\<open>trace_from\<close>) and a rank
    that every step lowers. The relation is generic in the request and the continuation,
    so its facts (one request per run, runs of two steps, the same outcomes as the
    functional \<open>execute\<close>) are lemmas about the host's execution model, not properties
    of the program.
  \<^item> \<open>Pack\<close>: the pack value of lines 3 to 5 and the two \<open>addSyncTable\<close> calls
    (\<open>seats_pack\<close>, \<open>routes_table\<close>, \<open>availability_table\<close>, \<open>source_param\<close>,
    \<open>dates_param\<close>), the SDK builder (\<open>new_pack\<close>, \<open>add_network_domain\<close>,
    \<open>add_sync_table\<close>) and the host: argument validation (\<open>args_conform\<close>), the
    network-domain allow-list (\<open>host_fetch\<close>), invocation by table name
    (\<open>invoke_sync_table\<close>), and the host's requirements on a pack (\<open>wf_pack\<close>).
  \<^item> \<open>Json\<close>: \<open>JSON.parse\<close> (\<open>json_parse\<close>, a recursive descent \<open>json_descent\<close>
    over a grammar position \<open>json_mode\<close>, with fuel) and \<open>JSON.stringify\<close>
    (\<open>json_serialize\<close>), both from ECMA-262 25.5, with the proofs that every step consumes
    input, that the fuel is always enough, and that parsing a serialized value gives it back.
  \<^item> \<open>HostFetch\<close>: the host's fetcher over HTTP (\<open>coda_fetcher\<close>): an arbitrary
    transport, \<open>NetworkError\<close> when no response arrives, \<open>StatusCodeError\<close> for a status
    outside \<open>2xx\<close>, \<open>JSON.parse\<close> of a body of media type \<open>application/json\<close> (a
    SyntaxError when it does not parse) and the text of any other body; composed with
    the pack, it gives the invocation's result for each server response.
  \<^item> this theory: the well-formedness of the two schemas and the property of the
    request URL that spans the formula and the SDK's encoder (C17).

  \<^emph>\<open>How the model corresponds to the code.\<close> Each JavaScript operation the code
  performs is a function returning \<open>js_error + 'a\<close>: \<open>Inl TypeError\<close> where the engine
  throws (reading a property of \<open>null\<close>, calling \<open>.filter\<close> on a non-array, ToPrimitive
  of an object whose \<open>toString\<close> is not callable), \<open>Inl (FetchFailed _)\<close> where the
  fetcher throws. \<open>filter\<close> and \<open>map\<close> are \<open>filter_js\<close> and \<open>map_js\<close>, which visit
  the rows in order and stop at the first exception, as the engine does. The optional
  \<open>dates\<close> parameter is \<open>None\<close> or the list of the time values of the Dates given;
  \<open>tza\<close> is the local time zone offset of the runtime. No state survives an
  invocation. Within one invocation the only suspension point is the \<open>await\<close>; the
  functional \<open>routes_execute\<close> and \<open>availability_execute\<close> take the fetcher as a
  parameter, and \<open>Invocation\<close> proves that they have exactly the outcomes of the step
  semantics in which the environment settles the fetch.

  \<^emph>\<open>What is proved.\<close> Every property below is quantified over the program's inputs
  (rows, field values, dates, fetchers, server responses); concrete inputs appear only in
  the witnesses. The date filter keeps a row exactly when its parsed date lies in the
  closed range, both ends included (C1); for rows dated \<open>YYYY-MM-DD\<close> and a range of two
  calendar days at midnight UTC this is the calendar-date range of the spec (C2, a
  refinement); with fewer than two dates nothing is kept (C14). A cost given as a string
  becomes its StringToNumber value when that is truthy and \<open>undefined\<close> otherwise (C3),
  a cost given as a Number is kept exactly when it is truthy, negative values and the
  infinities included (C8), the digits of a positive integer up to \<open>2\<^sup>5\<^sup>3\<close> become
  that Number (C7), and a one-element array holding any nonzero finite Number becomes
  that Number (C9). The map callback writes into each cost field the conversion of that
  same field (C4), every cost field it writes is \<open>undefined\<close> or a nonzero Number that
  is not NaN (C5), and every other field keeps its value and position (C6). Without
  dates every row is kept (C10); every row the stage returns passes the filter and
  carries converted costs (C11, the output invariant of spec section 3); the stage is
  idempotent for every value of \<open>dates\<close> (C12); it throws exactly when a row is
  \<open>null\<close> or \<open>undefined\<close> or a field it reads has no primitive value, the map being
  applied only to the rows the filter keeps (C13). The four cost columns of the
  Availability schema read exactly the values the map callback converts (C15). The Routes
  formula passes the body and the fetcher's errors through (C16). The request carries
  exactly one query parameter, which decodes back to \<open>source\<close> (C17). The registration
  wires each table to its \<open>execute\<close> and the declared domain lets their requests through
  (C18); the host accepts exactly the argument lists the parameter declarations allow
  (C19). Over HTTP: a \<open>2xx\<close> JSON response that serializes a well-formed value gives the
  stage's result on that value (C20, composing the server's \<open>JSON.stringify\<close>, the
  fetcher's \<open>JSON.parse\<close>, the pack and the stage), and the invocation ends with a fetch
  error exactly on a transport failure or a non-\<open>2xx\<close> status (C21).

  The library theories carry the engine and host facts these rest on, as lemmas:
  StringToNumber reads decimal digits exactly and ignores surrounding white space;
  Number::toString's search ends within its fuel for every binary64 value
  (\<open>shortest_decimal_terminates\<close>) and StringToNumber reads back what it writes
  (\<open>number_to_string_roundtrip\<close>); \<open>JSON.parse\<close> never exhausts its fuel and reads back
  what \<open>JSON.stringify\<close> writes (\<open>json_parse_terminates\<close>, \<open>json_roundtrip\<close>);
  parsed ISO dates stay within TimeClip's range; the pack as built is well formed
  (\<open>seats_pack_wf\<close>).

  \<^emph>\<open>Bounds and fuel.\<close> The only bounded search is Number::toString's search for the
  shortest decimal, bounded by \<open>digit_budget\<close>, the length of the exact decimal expansion
  of a binary64 value. For every positive finite binary64 value
  \<open>m \<cdot> 2\<^sup>k\<close> it stops at the latest at \<open>\<lfloor>log\<^sub>1\<^sub>0 x\<rfloor> + 1 + j\<close> digits, where \<open>2\<^sup>j\<close>
  is the denominator of \<open>x\<close> in lowest terms, which is below the fuel
  (\<open>shortest_decimal_terminates\<close>).
  \<open>JSON.parse\<close> is given fuel one more than the length of the text: every step of the
  descent consumes at least one character (\<open>json_descent_consumes\<close>), so the fuel is
  never exhausted (\<open>json_descent_fuel\<close>, \<open>json_parse_terminates\<close>). \<open>percent_decode\<close> and the string-literal
  lexer \<open>json_string_chars\<close> are \<open>function\<close>s with a termination proof on the length
  of their input; all other functions are structurally recursive or plain. Years of \<open>YYYY-MM-DD\<close> dates are taken from 0 to 9999, the range of
  four digits, which keeps every parsed date inside TimeClip's range. An invocation has no
  loop: its runs have at most two steps (the rank \<open>phase_rank\<close>), so it needs no fuel.

  \<^emph>\<open>Not modelled.\<close> The HTTP exchange itself (the transport is a parameter: any
  function from requests to responses or failures), redirects, authentication, the
  fetcher's other body handling (it parses JSON only for the media type
  \<open>application/json\<close>; XML bodies and JSON sent under another media type are passed on
  as text), the
  rendering of schemas, sync-table paging and continuations, and the autocomplete UI (the
  list itself is modelled as data). The host's URL parser is reduced to the host name of an
  absolute URL. V8's fallback parser for date strings outside the ISO format is
  implementation-defined (ECMA-262 21.4.3.2 leaves it to the engine) and undocumented, so
  the model gives NaN for such strings and the Date component stays partly modelled. Code
  units above \<open>U+00FF\<close> in strings: \<open>JSON.parse\<close> reports a \<open>\u\<close> escape above
  \<open>U+00FF\<close> as \<open>Unrepresentable\<close>, which the fetcher turns into a SyntaxError where the
  engine would return the string. The sign of zero.
\<close>

section \<open>The schemas\<close>

text \<open>
  Both schemas are well formed: property names and source keys are unique, and the
  identity, display and featured properties exist (also in the nested route schema).
\<close>

theorem schemas_well_formed: "wf_schema route_schema \<and> wf_schema availability_schema"
  by (simp add: route_schema_def availability_schema_def)

section \<open>The request\<close>

text \<open>
  C17. Whatever string the user passes as \<open>source\<close>, the request URL carries exactly one
  query parameter: the encoded value contains no \<open>&\<close>, \<open>#\<close> or \<open>=\<close>, so it cannot
  add parameters or a fragment, and the server decodes it back to the string passed.
\<close>

theorem availability_request_single_param:
  "\<exists>enc. req_url (availability_request source) = ''https://seats.aero/api/availability?source='' @ enc \<and>
     (\<forall>c \<in> set enc. c \<notin> set ''&#='') \<and> decode_uri_component enc = Some source"
proof -
  have "encode_uri_component ''source'' = ''source''"
    by (rule encode_uri_component_unreserved) (simp add: uri_unreserved_def)
  then have "req_url (availability_request source) =
      ''https://seats.aero/api/availability?source='' @ encode_uri_component source"
    by (simp add: availability_request_def with_query_params_def availability_base_url_def)
  then show ?thesis
    using encode_uri_component_no_separator decode_encode_uri_component by blast
qed

theorem availability_request_single_param_witness:
  "req_url (availability_request ''a&b=c'') = ''https://seats.aero/api/availability?source=a%26b%3Dc'' \<and>
   (\<exists>enc. req_url (availability_request ''a&b=c'') = ''https://seats.aero/api/availability?source='' @ enc \<and>
     (\<forall>c \<in> set enc. c \<notin> set ''&#='') \<and> decode_uri_component enc = Some ''a&b=c'')"
proof -
  have "encode_uri_component ''source'' = ''source''"
    by (rule encode_uri_component_unreserved) (simp add: uri_unreserved_def)
  then have "req_url (availability_request ''a&b=c'') = ''https://seats.aero/api/availability?source=a%26b%3Dc''"
    by (simp add: availability_request_def with_query_params_def availability_base_url_def
        encode_uri_component_def uri_unreserved_def utf8_bytes_def percent_byte_def hex_upper_def
        char_of_def bit_Suc_0_iff)
  then show ?thesis using availability_request_single_param [of "''a&b=c''"] by simp
qed


end
